theory Spec2Isabelle
  imports Complex_Main "HOL-Library.Sublist"
begin

section \<open>Data model\<close>

text \<open>
  The bill splitter has two parts: \<open>processBillImage\<close> (utils/imageProcessing, of which the
  repository holds two versions, one per response schema) and the \<open>costBreakdown\<close> memo of
  the main screen.

  Numbers. A JavaScript number is an IEEE 754 binary64 value. The type \<open>js_number\<close> below
  holds the finite ones by their real value, the two infinities and NaN, and \<open>to_double\<close>
  rounds a real to the nearest of them, ties to even; every \<open>+\<close> and \<open>/\<close> of the source is
  the exact operation followed by that rounding. The two zeros are one value here: no code
  of the repository tells them apart. The records of the data model keep a price as the
  real value of a finite double.

  Objects. \<open>costs\<close> and \<open>itemAssignments\<close> are plain objects whose prototype is
  \<open>Object.prototype\<close>: a read finds an own property or else the member that
  \<open>Object.prototype\<close> supplies under that name, and a write to the key \<open>__proto__\<close> creates
  no property. Strings are \<open>string\<close>.

  The allocator is embedded twice. \<open>costBreakdown_js\<close> follows the source operation by
  operation, with the rounding of every sum and quotient and with the inherited members.
  \<open>costBreakdown\<close> is the same loop read over exact arithmetic and own properties only;
  the equal split of a bill without assignments is stated of it, and shown of
  \<open>costBreakdown_js\<close> as well.
\<close>

text \<open>A JSON value, as \<open>JSON.parse\<close> returns it.\<close>

datatype json =
    JNull
  | JBool bool
  | JNumber real
  | JString string
  | JArray "json list"
  | JObject "(string \<times> json) list"

text \<open>
  \<open>interface BillItem { id; description; price; isShared? }\<close>. The field \<open>isShared\<close> is
  optional: the first version of \<open>processBillImage\<close> never sets it.
\<close>

record bill_item =
  item_id :: string
  description :: string
  price :: real
  isShared :: "bool option"

text \<open>\<open>interface Participant { id; name }\<close>.\<close>

record participant =
  participant_id :: string
  name :: string

text \<open>\<open>interface ItemAssignments { [itemId: string]: string[] }\<close>.\<close>

type_synonym item_assignments = "string \<rightharpoonup> string list"

text \<open>
  \<open>interface CostPerParticipant { [participantId: string]: number }\<close>: an object, kept as
  the list of its properties in the order they were created, every key once.
\<close>

type_synonym cost_per_participant = "(string \<times> real) list"

section \<open>Numbers: IEEE 754 binary64\<close>

text \<open>
  A number of the language: a finite double by its value, \<open>Infinity\<close>, \<open>-Infinity\<close> or
  \<open>NaN\<close>.
\<close>

datatype js_number = Finite real | PosInf | NegInf | NaN

text \<open>The integer nearest to \<open>z\<close>; of two equally near, the even one.\<close>

definition round_half_even :: "real \<Rightarrow> int" where
  "round_half_even z =
     (let f = \<lfloor>z\<rfloor>; d = z - real_of_int f in
      if d < 1 / 2 then f
      else if 1 / 2 < d then f + 1
      else if even f then f else f + 1)"

text \<open>
  The exponent of the binade of \<open>x\<close>: \<open>2 ^ e \<le> |x| < 2 ^ (e + 1)\<close>, and \<open>-1022\<close> for
  the subnormal range below \<open>2 ^ -1022\<close>.
\<close>

definition binade :: "real \<Rightarrow> int" where
  "binade x = max \<lfloor>log 2 \<bar>x\<bar>\<rfloor> (- 1022)"

text \<open>
  Rounding to the nearest double, ties to even: a double of the binade \<open>e\<close> is a multiple of
  \<open>2 ^ (e - 52)\<close>; a result of magnitude \<open>2 ^ 1024\<close> is an infinity.
\<close>

definition to_double :: "real \<Rightarrow> js_number" where
  "to_double x =
     (if x = 0 then Finite 0
      else let ulp = 2 powi (binade x - 52);
               y = real_of_int (round_half_even (x / ulp)) * ulp in
        if 2 ^ 1024 \<le> \<bar>y\<bar> then (if 0 < x then PosInf else NegInf) else Finite y)"

text \<open>\<open>a + b\<close> on numbers.\<close>

definition fl_add :: "js_number \<Rightarrow> js_number \<Rightarrow> js_number" where
  "fl_add a b =
     (case (a, b) of
        (Finite x, Finite y) \<Rightarrow> to_double (x + y)
      | (NaN, _) \<Rightarrow> NaN
      | (_, NaN) \<Rightarrow> NaN
      | (PosInf, NegInf) \<Rightarrow> NaN
      | (NegInf, PosInf) \<Rightarrow> NaN
      | (PosInf, _) \<Rightarrow> PosInf
      | (NegInf, _) \<Rightarrow> NegInf
      | (_, PosInf) \<Rightarrow> PosInf
      | (_, NegInf) \<Rightarrow> NegInf)"

text \<open>
  \<open>a / n\<close> for the length \<open>n\<close> of an array. Division never throws: a zero divisor gives an
  infinity, or \<open>NaN\<close> for \<open>0 / 0\<close>.
\<close>

definition fl_div :: "js_number \<Rightarrow> nat \<Rightarrow> js_number" where
  "fl_div a n =
     (case a of
        Finite x \<Rightarrow>
          if n = 0 then (if 0 < x then PosInf else if x < 0 then NegInf else NaN)
          else to_double (x / real n)
      | PosInf \<Rightarrow> PosInf
      | NegInf \<Rightarrow> NegInf
      | NaN \<Rightarrow> NaN)"


section \<open>The allocator over exact arithmetic: \<open>costBreakdown\<close>\<close>

text \<open>
  The loop of \<open>costBreakdown\<close> read over the reals and over own properties: what the
  allocator computes when no sum or quotient is rounded and no id names a member of
  \<open>Object.prototype\<close> (the ids the application produces are decimal digit strings).
  JavaScript's \<open>/\<close> never throws; a division by zero gives \<open>Infinity\<close> or \<open>NaN\<close>, which
  are not reals. This reading reports such a division as \<open>Inl NonFinite\<close>, so that its
  absence is a theorem and not a consequence of \<open>x / 0 = 0\<close> in HOL.
\<close>

datatype alloc_error = NonFinite

definition js_div :: "real \<Rightarrow> nat \<Rightarrow> alloc_error + real" where
  "js_div x n = (if n = 0 then Inl NonFinite else Inr (x / real n))"

text \<open>\<open>costs[k] || 0\<close> on own properties: a missing one reads as \<open>undefined\<close>, which \<open>||\<close> turns into 0.\<close>

definition cost_or_zero :: "cost_per_participant \<Rightarrow> string \<Rightarrow> real" where
  "cost_or_zero costs k = (case map_of costs k of None \<Rightarrow> 0 | Some v \<Rightarrow> v)"

text \<open>\<open>costs[k] = v\<close>: overwrite the property in place, or append a new one.\<close>

fun set_cost :: "string \<Rightarrow> real \<Rightarrow> cost_per_participant \<Rightarrow> cost_per_participant" where
  "set_cost k v [] = [(k, v)]"
| "set_cost k v (p # ps) = (if fst p = k then (k, v) # ps else p # set_cost k v ps)"

text \<open>\<open>costs[pId] = (costs[pId] || 0) + amount\<close>.\<close>

definition add_cost :: "real \<Rightarrow> cost_per_participant \<Rightarrow> string \<Rightarrow> cost_per_participant" where
  "add_cost amount costs pId = set_cost pId (cost_or_zero costs pId + amount) costs"


text \<open>
  \<open>itemAssignments[item.id] || []\<close> on own properties: the item's own assignment entries,
  none when the object has no entry for the item.
\<close>

definition assigned_to :: "item_assignments \<Rightarrow> bill_item \<Rightarrow> string list" where
  "assigned_to itemAssignments item =
     (case itemAssignments (item_id item) of None \<Rightarrow> [] | Some pIds \<Rightarrow> pIds)"

text \<open>The two variables the first loop writes: \<open>costs\<close> and the set \<open>assignedItemIds\<close>.\<close>

record alloc_state =
  costs :: cost_per_participant
  assignedItemIds :: "string set"

text \<open>The body of \<open>extractedItems.forEach(item => ...)\<close>.\<close>

definition assign_item :: "item_assignments \<Rightarrow> alloc_state \<Rightarrow> bill_item \<Rightarrow> alloc_error + alloc_state" where
  "assign_item itemAssignments st item =
     (let assignedTo = assigned_to itemAssignments item in
      if length assignedTo > 0 then
        (case js_div (price item) (length assignedTo) of
           Inl e \<Rightarrow> Inl e
         | Inr costPerParticipant \<Rightarrow>
             Inr \<lparr>costs = foldl (add_cost costPerParticipant) (costs st) assignedTo,
                  assignedItemIds = insert (item_id item) (assignedItemIds st)\<rparr>)
      else Inr st)"

fun assign_items :: "item_assignments \<Rightarrow> alloc_state \<Rightarrow> bill_item list \<Rightarrow> alloc_error + alloc_state" where
  "assign_items itemAssignments st [] = Inr st"
| "assign_items itemAssignments st (item # rest) =
     (case assign_item itemAssignments st item of
        Inl e \<Rightarrow> Inl e
      | Inr st' \<Rightarrow> assign_items itemAssignments st' rest)"





subsection \<open>What the allocator hands out, item by item\<close>



section \<open>The allocator as JavaScript runs it: \<open>costBreakdown_js\<close>\<close>

subsection \<open>Values and objects\<close>

text \<open>
  \<open>v || 0\<close> on a number: \<open>0\<close> and \<open>NaN\<close> are falsy and give way to the \<open>0\<close>.
\<close>

definition is_falsy :: "js_number \<Rightarrow> bool" where
  "is_falsy a = (case a of Finite x \<Rightarrow> x = 0 | NaN \<Rightarrow> True | _ \<Rightarrow> False)"

definition or_zero :: "js_number \<Rightarrow> js_number" where
  "or_zero a = (if is_falsy a then Finite 0 else a)"

text \<open>
  What a property of \<open>costs\<close> can hold at run time: a number, or the string that \<open>+\<close>
  builds when its left operand is a function, an object or a string. The characters of
  such a string are not modelled; it is never empty, so it is truthy.
\<close>

datatype js_value = Num js_number | SomeString

text \<open>
  The own properties of \<open>costs\<close>, in the order they were created, every key once.
  (\<open>Object.values\<close> lists keys that are array indices first; nothing below depends on the
  order.)
\<close>

type_synonym js_costs = "(string \<times> js_value) list"

text \<open>
  The function-valued members of \<open>Object.prototype\<close> with the \<open>length\<close> of each, as
  ECMAScript defines them. The one other member is the accessor \<open>__proto__\<close>, which reads
  as \<open>Object.prototype\<close> itself.
\<close>

definition Object_prototype_function :: "string \<Rightarrow> nat option" where
  "Object_prototype_function k =
     map_of
       [(''constructor'', 1), (''hasOwnProperty'', 1), (''isPrototypeOf'', 1),
        (''propertyIsEnumerable'', 1), (''toLocaleString'', 0), (''toString'', 0),
        (''valueOf'', 0), (''__defineGetter__'', 2), (''__defineSetter__'', 2),
        (''__lookupGetter__'', 1), (''__lookupSetter__'', 1)] k"

definition inherited_property :: "string \<Rightarrow> bool" where
  "inherited_property k = (Object_prototype_function k \<noteq> None \<or> k = ''__proto__'')"

text \<open>\<open>obj[k] = v\<close> for a key other than \<open>__proto__\<close>: overwrite in place, or append.\<close>

fun set_own :: "string \<Rightarrow> 'v \<Rightarrow> (string \<times> 'v) list \<Rightarrow> (string \<times> 'v) list" where
  "set_own k v [] = [(k, v)]"
| "set_own k v (p # ps) = (if fst p = k then (k, v) # ps else p # set_own k v ps)"

text \<open>
  \<open>costs[k] = v\<close>. The values written are numbers and strings; the setter of \<open>__proto__\<close>
  ignores both, so that write leaves the object as it is.
\<close>

definition put_cost :: "string \<Rightarrow> js_value \<Rightarrow> js_costs \<Rightarrow> js_costs" where
  "put_cost k v costsObj = (if k = ''__proto__'' then costsObj else set_own k v costsObj)"

text \<open>
  \<open>(costs[pId] || 0) + amount\<close>. An own number is added to; an own string, or an inherited
  member (a function, or \<open>Object.prototype\<close> for \<open>__proto__\<close>), is truthy and \<open>+\<close>
  concatenates; an id that is neither reads as \<open>undefined\<close> and counts as 0.
\<close>

definition or_zero_plus :: "js_costs \<Rightarrow> string \<Rightarrow> js_number \<Rightarrow> js_value" where
  "or_zero_plus costsObj pId amount =
     (case map_of costsObj pId of
        Some (Num v) \<Rightarrow> Num (fl_add (or_zero v) amount)
      | Some SomeString \<Rightarrow> SomeString
      | None \<Rightarrow>
          if inherited_property pId then SomeString
          else Num (fl_add (Finite 0) amount))"

text \<open>\<open>costs[pId] = (costs[pId] || 0) + amount\<close>.\<close>

definition add_cost_js :: "js_number \<Rightarrow> js_costs \<Rightarrow> string \<Rightarrow> js_costs" where
  "add_cost_js amount costsObj pId = put_cost pId (or_zero_plus costsObj pId amount) costsObj"

text \<open>\<open>participants.forEach(p => costs[p.id] = 0)\<close> on the empty object.\<close>

definition init_costs_js :: "participant list \<Rightarrow> js_costs" where
  "init_costs_js participants =
     foldl (\<lambda>costs p. put_cost (participant_id p) (Num (Finite 0)) costs) [] participants"

subsection \<open>The two loops\<close>

text \<open>The one exception the allocator can raise.\<close>

datatype js_exception = TypeError

text \<open>
  The variables the first loop writes, \<open>costs\<close> and \<open>assignedItemIds\<close>, and a log that is
  not in the source: the divisor of every division performed, in order.
\<close>

record alloc_state_js =
  costs_js :: js_costs
  assignedItemIds_js :: "string set"
  divisors :: "nat list"

text \<open>
  The body of \<open>extractedItems.forEach(item => ...)\<close>. \<open>itemAssignments\<close> is given by its own
  properties. When it has none for \<open>item.id\<close>, the read gives the inherited member if the id
  names one: a function is truthy, so \<open>assignedTo\<close> is that function; if its \<open>length\<close>
  exceeds 0 the branch is entered and \<open>assignedTo.forEach\<close>, which is \<open>undefined\<close>, is
  called: a \<open>TypeError\<close>. A function of length 0, \<open>Object.prototype\<close> (whose \<open>length\<close> is
  \<open>undefined\<close>) and a missing property all skip the branch.
\<close>

definition assign_item_js ::
  "item_assignments \<Rightarrow> alloc_state_js \<Rightarrow> bill_item \<Rightarrow> js_exception + alloc_state_js" where
  "assign_item_js itemAssignments st item =
     (case itemAssignments (item_id item) of
        Some assignedTo \<Rightarrow>
          if length assignedTo > 0 then
            (let costPerParticipant = fl_div (Finite (price item)) (length assignedTo) in
             Inr \<lparr>costs_js = foldl (add_cost_js costPerParticipant) (costs_js st) assignedTo,
                  assignedItemIds_js = insert (item_id item) (assignedItemIds_js st),
                  divisors = divisors st @ [length assignedTo]\<rparr>)
          else Inr st
      | None \<Rightarrow>
          (case Object_prototype_function (item_id item) of
             Some n \<Rightarrow> if n > 0 then Inl TypeError else Inr st
           | None \<Rightarrow> Inr st))"

fun assign_items_js ::
  "item_assignments \<Rightarrow> alloc_state_js \<Rightarrow> bill_item list \<Rightarrow> js_exception + alloc_state_js" where
  "assign_items_js itemAssignments st [] = Inr st"
| "assign_items_js itemAssignments st (item # rest) =
     (case assign_item_js itemAssignments st item of
        Inl e \<Rightarrow> Inl e
      | Inr st' \<Rightarrow> assign_items_js itemAssignments st' rest)"

text \<open>
  \<open>extractedItems.reduce((sum, item) => sum + item.price, 0)\<close>: \<open>totalBillAmount\<close>, and the
  pool of the unassigned items.
\<close>

definition totalBillAmount_js :: "bill_item list \<Rightarrow> js_number" where
  "totalBillAmount_js extractedItems =
     foldl (\<lambda>sum item. fl_add sum (Finite (price item))) (Finite 0) extractedItems"

text \<open>The memo: the returned object, with the log of divisors beside it.\<close>

definition costBreakdown_js ::
  "bill_item list \<Rightarrow> participant list \<Rightarrow> item_assignments
     \<Rightarrow> js_exception + js_costs \<times> nat list" where
  "costBreakdown_js extractedItems participants itemAssignments =
     (case assign_items_js itemAssignments
             \<lparr>costs_js = init_costs_js participants, assignedItemIds_js = {}, divisors = []\<rparr>
             extractedItems of
        Inl e \<Rightarrow> Inl e
      | Inr st \<Rightarrow>
          (let unassignedItems =
                 filter (\<lambda>item. item_id item \<notin> assignedItemIds_js st) extractedItems in
           if length unassignedItems > 0 \<and> length participants > 0 then
             (let costPerSharedItemPortion =
                    fl_div (totalBillAmount_js unassignedItems) (length participants) in
              Inr (foldl (\<lambda>costs p. add_cost_js costPerSharedItemPortion costs (participant_id p))
                     (costs_js st) participants,
                   divisors st @ [length participants]))
           else Inr (costs_js st, divisors st)))"

subsection \<open>What the loops hand out, id by id\<close>

text \<open>
  An item on which the first loop raises: no own assignment entry, and an id that names a
  function of \<open>Object.prototype\<close> with parameters.
\<close>

definition throws_on :: "item_assignments \<Rightarrow> bill_item \<Rightarrow> bool" where
  "throws_on itemAssignments item =
     (itemAssignments (item_id item) = None
      \<and> (case Object_prototype_function (item_id item) of Some n \<Rightarrow> 0 < n | None \<Rightarrow> False))"

text \<open>One credit to a numeric total: \<open>(current || 0) + amount\<close>.\<close>

definition credit :: "js_number \<Rightarrow> js_number \<Rightarrow> js_number" where
  "credit current amount = fl_add (or_zero current) amount"

text \<open>
  The quotients the first loop credits to the id \<open>k\<close>, in order: for every item, one rounded
  quotient \<open>price / n\<close> for each occurrence of \<open>k\<close> among the item's \<open>n\<close> entries.
\<close>

definition quotients_for :: "item_assignments \<Rightarrow> bill_item list \<Rightarrow> string \<Rightarrow> js_number list" where
  "quotients_for itemAssignments its k =
     concat (map (\<lambda>item.
        replicate (count_list (assigned_to itemAssignments item) k)
          (fl_div (Finite (price item)) (length (assigned_to itemAssignments item)))) its)"

text \<open>
  The portions the second loop credits to the id \<open>k\<close>: one portion of the pool for each
  participant whose id is \<open>k\<close>, when there is an unassigned item and a participant.
\<close>

definition pool_portions :: "item_assignments \<Rightarrow> bill_item list \<Rightarrow> participant list \<Rightarrow> string \<Rightarrow> js_number list" where
  "pool_portions itemAssignments its participants k =
     (let unassignedItems = filter (\<lambda>item. assigned_to itemAssignments item = []) its in
      if unassignedItems = [] \<or> participants = [] then []
      else replicate (count_list (map participant_id participants) k)
             (fl_div (totalBillAmount_js unassignedItems) (length participants)))"




text \<open>
  The total under \<open>k\<close> as the next credit reads it, and the keys whose total is and stays a
  number: not \<open>__proto__\<close>, and either an own number or a name that \<open>Object.prototype\<close>
  does not supply.
\<close>

definition current_total :: "js_costs \<Rightarrow> string \<Rightarrow> js_number" where
  "current_total costsObj k = (case map_of costsObj k of Some (Num v) \<Rightarrow> v | _ \<Rightarrow> Finite 0)"

definition numeric_key :: "js_costs \<Rightarrow> string \<Rightarrow> bool" where
  "numeric_key costsObj k =
     (k \<noteq> ''__proto__''
      \<and> (case map_of costsObj k of
            Some (Num v) \<Rightarrow> True
          | Some SomeString \<Rightarrow> False
          | None \<Rightarrow> \<not> inherited_property k))"


section \<open>The extractor: \<open>processBillImage\<close>\<close>

text \<open>
  What \<open>JSON.parse\<close> returns is read at the type the source declares for it: an item with
  \<open>description\<close>, \<open>price\<close> and (second version) an optional \<open>isTax\<close>, kept as the JSON
  value it is because the source compares it with \<open>=== true\<close>; and (first version) an object
  whose \<open>items\<close>, \<open>cgst\<close> and \<open>sgst\<close> may be missing.
\<close>

record parsed_item =
  raw_description :: string
  raw_price :: real
  isTax :: "json option"

record parsed_response =
  items :: "parsed_item list option"
  cgst :: "real option"
  sgst :: "real option"

text \<open>The two effects of \<open>processBillImage\<close>, in the order they happen.\<close>

datatype event =
    ReadImage string
  | CallModel string string

text \<open>
  The platform: \<open>FileSystem.readAsStringAsync\<close> (\<open>None\<close> when it throws) and the model's
  \<open>generateContent\<close> followed by \<open>response.text()\<close>, from the base64 data and the MIME type
  to the text (\<open>Inl\<close> the message of what was thrown). The prompt is a constant of each
  version and is not part of the request value here.
\<close>

record platform =
  readAsStringAsync :: "string \<Rightarrow> string option"
  generateContent :: "string \<Rightarrow> string \<Rightarrow> string + string"

definition getBase64FromUri :: "platform \<Rightarrow> string \<Rightarrow> string + string" where
  "getBase64FromUri pf uri =
     (case readAsStringAsync pf uri of
        Some base64 \<Rightarrow> Inr base64
      | None \<Rightarrow> Inl ''Failed to read image file'')"

text \<open>\<open>toLowerCase\<close> on the letters A to Z; no other character lowercases to a letter of
  the extensions below.\<close>

definition toLowerCase :: "string \<Rightarrow> string" where
  "toLowerCase s =
     map (\<lambda>c. if 65 \<le> (of_char c :: nat) \<and> (of_char c :: nat) \<le> 90
               then char_of ((of_char c :: nat) + 32) else c) s"

text \<open>\<open>uri.split('.').pop()\<close>: what follows the last dot.\<close>

definition split_pop :: "string \<Rightarrow> string" where
  "split_pop uri = rev (takeWhile (\<lambda>c. c \<noteq> CHR ''.'') (rev uri))"

definition getMimeTypeFromUri :: "string \<Rightarrow> string" where
  "getMimeTypeFromUri uri =
     (if CHR ''.'' \<notin> set uri then ''image/jpeg''
      else let extension = toLowerCase (split_pop uri) in
        if extension = ''png'' then ''image/png''
        else if extension = ''jpeg'' \<or> extension = ''jpg'' then ''image/jpeg''
        else if extension = ''gif'' then ''image/gif''
        else if extension = ''webp'' then ''image/webp''
        else if extension = ''heic'' then ''image/heic''
        else if extension = ''heif'' then ''image/heif''
        else ''image/jpeg'')"

text \<open>\<open>!CONFIG.GEMINI_API_KEY || CONFIG.GEMINI_API_KEY === 'YOUR_GEMINI_API_KEY'\<close>; the key is
  \<open>None\<close> when the configuration has none, and the empty string is falsy too.\<close>

definition api_key_not_configured :: "string option \<Rightarrow> bool" where
  "api_key_not_configured key =
     (case key of None \<Rightarrow> True | Some k \<Rightarrow> k = [] \<or> k = ''YOUR_GEMINI_API_KEY'')"

text \<open>The outer \<open>catch\<close>: every error leaves as one \<open>Error\<close> with a prefixed message.\<close>

definition failed_to_process :: "string \<Rightarrow> string" where
  "failed_to_process message = ''Failed to process bill image: '' @ message"

text \<open>
  \<open>text.match(/\{[\s\S]*\}/)\<close> and \<open>text.match(/\[[\s\S]*\]/)\<close>: the leftmost opening
  character, then as much as possible up to a closing character, so the match runs from the
  first opening character to the last closing character after it.
\<close>

definition match_first_to_last :: "char \<Rightarrow> char \<Rightarrow> string \<Rightarrow> string option" where
  "match_first_to_last opening closing text =
     (case dropWhile (\<lambda>c. c \<noteq> opening) text of
        [] \<Rightarrow> None
      | c # after_opening \<Rightarrow>
          (case dropWhile (\<lambda>c. c \<noteq> closing) (rev after_opening) of
             [] \<Rightarrow> None
           | d # before_closing \<Rightarrow> Some (c # rev (d # before_closing))))"

definition match_object :: "string \<Rightarrow> string option" where
  "match_object text = match_first_to_last CHR ''{'' CHR ''}'' text"

definition match_array :: "string \<Rightarrow> string option" where
  "match_array text = match_first_to_last CHR ''['' CHR '']'' text"

text \<open>
  The parse step of the two versions. \<open>JSON.parse\<close> is the platform's and is a parameter:
  \<open>Inl\<close> the message of the \<open>SyntaxError\<close> it throws. A throw of the second \<open>JSON.parse\<close>
  is not caught here and leaves as it is.
\<close>

definition parse_response_A :: "(string \<Rightarrow> string + parsed_response) \<Rightarrow> string \<Rightarrow> string + parsed_response" where
  "parse_response_A JSON_parse text =
     (case JSON_parse text of
        Inr parsedResponse \<Rightarrow> Inr parsedResponse
      | Inl e \<Rightarrow>
          (case match_object text of
             Some jsonMatch \<Rightarrow> JSON_parse jsonMatch
           | None \<Rightarrow> Inl ''Failed to parse model response as JSON''))"

definition parse_response_B :: "(string \<Rightarrow> string + parsed_item list) \<Rightarrow> string \<Rightarrow> string + parsed_item list" where
  "parse_response_B JSON_parse text =
     (case JSON_parse text of
        Inr parsedItems \<Rightarrow> Inr parsedItems
      | Inl e \<Rightarrow>
          (case match_array text of
             Some jsonMatch \<Rightarrow> JSON_parse jsonMatch
           | None \<Rightarrow> Inl ''Failed to parse model response as JSON''))"

text \<open>\<open>(index + 1).toString()\<close>: the decimal digits of a natural number.\<close>

function toString :: "nat \<Rightarrow> string" where
  "toString n =
     (if n < 10 then [char_of (48 + n)]
      else toString (n div 10) @ [char_of (48 + n mod 10)])"
  by pat_completeness auto
termination
  by (relation "measure (\<lambda>n. n)") auto

declare toString.simps [simp del]

text \<open>
  The number that \<open>x.toFixed(2)\<close> writes out, for \<open>x\<close> of magnitude below \<open>10 ^ 21\<close>:
  \<open>toFixed\<close> takes the integer \<open>n\<close> with \<open>n / 100\<close> closest to the magnitude of \<open>x\<close>, the
  larger one of two, and keeps the sign.
\<close>

definition toFixed2 :: "real \<Rightarrow> real" where
  "toFixed2 x =
     (if x < 0 then - (real_of_int \<lfloor>- x * 100 + 1 / 2\<rfloor> / 100)
      else real_of_int \<lfloor>x * 100 + 1 / 2\<rfloor> / 100)"

text \<open>
  \<open>+(x).toFixed(2)\<close> on a number. The digits that \<open>toFixed\<close> writes are read back by the
  unary \<open>+\<close> as the nearest double. From \<open>10 ^ 21\<close> on \<open>toFixed\<close> writes the number as
  \<open>toString\<close> does, and an infinity or \<open>NaN\<close> by its name; each of these reads back as the
  number it was.
\<close>

definition plus_toFixed2 :: "js_number \<Rightarrow> js_number" where
  "plus_toFixed2 a =
     (case a of
        Finite x \<Rightarrow> if 10 ^ 21 \<le> \<bar>x\<bar> then Finite x else to_double (toFixed2 x)
      | _ \<Rightarrow> a)"

text \<open>
  The price of a \<open>bill_item\<close> is the value of a finite double. A price that is not finite
  (a sum beyond the range of doubles) has no such value and is kept as 0; the theorems on
  prices are about sums that are finite.
\<close>

definition finite_value :: "js_number \<Rightarrow> real" where
  "finite_value a = (case a of Finite x \<Rightarrow> x | _ \<Rightarrow> 0)"

text \<open>First version: the tax fields are spread over the items.\<close>

definition billItems_A :: "parsed_response \<Rightarrow> bill_item list" where
  "billItems_A parsedResponse =
     (let its = (case items parsedResponse of None \<Rightarrow> [] | Some l \<Rightarrow> l);
          cgst_v = (case cgst parsedResponse of None \<Rightarrow> 0 | Some c \<Rightarrow> c);
          sgst_v = (case sgst parsedResponse of None \<Rightarrow> 0 | Some c \<Rightarrow> c);
          totalTaxPerItem =
            (if length its > 0 then fl_div (fl_add (Finite cgst_v) (Finite sgst_v)) (length its)
             else Finite 0)
      in map (\<lambda>(index, item).
               \<lparr>item_id = toString (index + 1),
                description = raw_description item,
                price = finite_value
                          (plus_toFixed2 (fl_add (Finite (raw_price item)) totalTaxPerItem)),
                isShared = None\<rparr>)
           (enumerate 0 its))"

text \<open>Second version: \<open>isShared: item.isTax === true\<close>.\<close>

definition billItems_B :: "parsed_item list \<Rightarrow> bill_item list" where
  "billItems_B parsedItems =
     map (\<lambda>(index, item).
            \<lparr>item_id = toString (index + 1),
             description = raw_description item,
             price = raw_price item,
             isShared = Some (isTax item = Some (JBool True))\<rparr>)
       (enumerate 0 parsedItems)"

definition processBillImage_A ::
  "string option \<Rightarrow> platform \<Rightarrow> (string \<Rightarrow> string + parsed_response) \<Rightarrow> string
     \<Rightarrow> event list \<times> (string + bill_item list)" where
  "processBillImage_A key pf JSON_parse imageUri =
     (if api_key_not_configured key then
        ([], Inl (failed_to_process
                   ''Gemini API key not configured. Please add your API key in the config file.''))
      else
        (case getBase64FromUri pf imageUri of
           Inl message \<Rightarrow> ([ReadImage imageUri], Inl (failed_to_process message))
         | Inr base64Data \<Rightarrow>
             (let mimeType = getMimeTypeFromUri imageUri;
                  events = [ReadImage imageUri, CallModel base64Data mimeType] in
              case generateContent pf base64Data mimeType of
                Inl message \<Rightarrow> (events, Inl (failed_to_process message))
              | Inr text \<Rightarrow>
                  (case parse_response_A JSON_parse text of
                     Inl message \<Rightarrow> (events, Inl (failed_to_process message))
                   | Inr parsedResponse \<Rightarrow> (events, Inr (billItems_A parsedResponse))))))"

definition processBillImage_B ::
  "string option \<Rightarrow> platform \<Rightarrow> (string \<Rightarrow> string + parsed_item list) \<Rightarrow> string
     \<Rightarrow> event list \<times> (string + bill_item list)" where
  "processBillImage_B key pf JSON_parse imageUri =
     (if api_key_not_configured key then
        ([], Inl (failed_to_process
                   ''Gemini API key not configured. Please add your API key in the config file.''))
      else
        (case getBase64FromUri pf imageUri of
           Inl message \<Rightarrow> ([ReadImage imageUri], Inl (failed_to_process message))
         | Inr base64Data \<Rightarrow>
             (let mimeType = getMimeTypeFromUri imageUri;
                  events = [ReadImage imageUri, CallModel base64Data mimeType] in
              case generateContent pf base64Data mimeType of
                Inl message \<Rightarrow> (events, Inl (failed_to_process message))
              | Inr text \<Rightarrow>
                  (case parse_response_B JSON_parse text of
                     Inl message \<Rightarrow> (events, Inl (failed_to_process message))
                   | Inr parsedItems \<Rightarrow> (events, Inr (billItems_B parsedItems))))))"

subsection \<open>The bracket scan as the specification words it\<close>

text \<open>
  Following the specification's words, "the first well-formed bracket-delimited structure
  (array form or object form)": the leftmost opening bracket from which the brackets balance,
  up to the bracket that closes it. It is compared below with what the source's regular
  expressions select.
\<close>

definition closing_of :: "char \<Rightarrow> char option" where
  "closing_of c =
     (if c = CHR ''['' then Some CHR '']'' else if c = CHR ''{'' then Some CHR ''}'' else None)"

fun balanced_prefix :: "char list \<Rightarrow> string \<Rightarrow> string option" where
  "balanced_prefix pending [] = None"
| "balanced_prefix pending (c # cs) =
     (case closing_of c of
        Some d \<Rightarrow> map_option ((#) c) (balanced_prefix (d # pending) cs)
      | None \<Rightarrow>
          if c = CHR '']'' \<or> c = CHR ''}'' then
            (case pending of
               [] \<Rightarrow> None
             | d # pending' \<Rightarrow>
                 if c \<noteq> d then None
                 else if pending' = [] then Some [c]
                 else map_option ((#) c) (balanced_prefix pending' cs))
          else map_option ((#) c) (balanced_prefix pending cs))"

fun first_wellformed_structure :: "string \<Rightarrow> string option" where
  "first_wellformed_structure [] = None"
| "first_wellformed_structure (c # cs) =
     (case (if closing_of c = None then None else balanced_prefix [] (c # cs)) of
        Some s \<Rightarrow> Some s
      | None \<Rightarrow> first_wellformed_structure cs)"

section \<open>Properties of the allocator over exact arithmetic\<close>

subsection \<open>The cost object\<close>















lemma assign_item_Inr:
  "assign_item a st item =
     Inr (if assigned_to a item = [] then st
          else \<lparr>costs = foldl (add_cost (price item / real (length (assigned_to a item))))
                           (costs st) (assigned_to a item),
                assignedItemIds = insert (item_id item) (assignedItemIds st)\<rparr>)"
  by (simp add: assign_item_def js_div_def Let_def)



lemma map_of_set_cost: "map_of (set_cost k v cs) = (map_of cs)(k \<mapsto> v)"
  by (induction cs) auto












lemma assign_items_unassigned:
  "\<forall>i\<in>set its. assigned_to a i = [] \<Longrightarrow> assign_items a st its = Inr st"
  by (induction its) (auto simp: assign_item_Inr)



lemma count_list_distinct: "distinct xs \<Longrightarrow> x \<in> set xs \<Longrightarrow> count_list xs x = 1"
  by (induction xs) auto



subsection \<open>The equal split of a bill without assignments\<close>



section \<open>Properties of rounding\<close>

lemma binade_eq:
  assumes "2 powi e \<le> \<bar>x\<bar>" and "\<bar>x\<bar> < 2 powi (e + 1)" and "- 1022 \<le> e"
  shows "binade x = e"
proof -
  have pos: "0 < \<bar>x\<bar>"
    using assms(1) zero_less_power_int [of "2::real" e] by linarith
  have p1: "2 powr real_of_int e = (2::real) powi e"
    by (rule powr_real_of_int') simp_all
  have p2: "2 powr (real_of_int e + 1) = (2::real) powi (e + 1)"
    using powr_real_of_int' [of "2::real" "e + 1"] by simp
  have "2 powr real_of_int e \<le> \<bar>x\<bar> \<and> \<bar>x\<bar> < 2 powr (real_of_int e + 1)"
    unfolding p1 p2 using assms(1,2) by simp
  then have "\<lfloor>log 2 \<bar>x\<bar>\<rfloor> = e"
    using pos floor_log_eq_powr_iff [of "\<bar>x\<bar>" 2 e] by simp
  then show ?thesis using assms(3) by (simp add: binade_def)
qed

lemma round_half_even_bounds:
  "real_of_int (round_half_even z) \<le> z + 1 / 2" "z - 1 / 2 \<le> real_of_int (round_half_even z)"
  unfolding round_half_even_def Let_def by (auto; linarith)+

lemma binade_upper:
  assumes "x \<noteq> 0"
  shows "\<bar>x\<bar> < 2 powi (binade x + 1)"
proof -
  have pos: "0 < \<bar>x\<bar>" using assms by simp
  have "log 2 \<bar>x\<bar> < real_of_int \<lfloor>log 2 \<bar>x\<bar>\<rfloor> + 1"
    by linarith
  also have "\<dots> \<le> real_of_int (binade x) + 1"
    by (simp add: binade_def)
  finally have "log 2 \<bar>x\<bar> < real_of_int (binade x + 1)"
    by simp
  then have "2 powr log 2 \<bar>x\<bar> < 2 powr real_of_int (binade x + 1)"
    by simp
  moreover have "2 powr log 2 \<bar>x\<bar> = \<bar>x\<bar>"
    using pos by simp
  moreover have "2 powr real_of_int (binade x + 1) = (2::real) powi (binade x + 1)"
    by (rule powr_real_of_int') simp_all
  ultimately show ?thesis by simp
qed

lemma binade_le:
  assumes "x \<noteq> 0" and "\<bar>x\<bar> < 2 powi (e + 1)" and "- 1022 \<le> e"
  shows "binade x \<le> e"
proof -
  have pos: "0 < \<bar>x\<bar>" using assms(1) by simp
  have "2 powr real_of_int (e + 1) = (2::real) powi (e + 1)"
    by (rule powr_real_of_int') simp_all
  then have "\<bar>x\<bar> < 2 powr real_of_int (e + 1)"
    using assms(2) by simp
  then have "log 2 \<bar>x\<bar> < real_of_int (e + 1)"
    using pos by (simp add: log_less_iff)
  then have "\<lfloor>log 2 \<bar>x\<bar>\<rfloor> < e + 1"
    by linarith
  then show ?thesis using assms(3) by (simp add: binade_def)
qed

lemma to_double_rounds:
  assumes "x \<noteq> 0" and "binade x \<le> 1022"
  shows "to_double x
           = Finite (real_of_int (round_half_even (x / 2 powi (binade x - 52)))
                       * 2 powi (binade x - 52))"
proof -
  define e where "e = binade x"
  define n where "n = round_half_even (x / 2 powi (e - 52))"
  let ?u = "2 powi (e - 52) :: real"
  have u: "0 < ?u" by simp
  have "\<bar>x\<bar> < 2 powi (e + 1)"
    unfolding e_def using assms(1) by (rule binade_upper)
  then have "\<bar>x\<bar> / ?u < 2 powi (e + 1) / ?u"
    using u by (simp add: divide_strict_right_mono)
  also have "2 powi (e + 1) / ?u = (2::real) powi 53"
    by (simp add: power_int_diff [symmetric])
  finally have lt: "\<bar>x / ?u\<bar> < 2 ^ 53" using u by (simp add: abs_divide)
  have "\<bar>real_of_int n\<bar> \<le> \<bar>x / ?u\<bar> + 1 / 2"
    using round_half_even_bounds [of "x / ?u"] unfolding n_def by linarith
  then have "real_of_int \<bar>n\<bar> < real_of_int (2 ^ 53 + 1)" using lt by simp
  then have "\<bar>n\<bar> < 2 ^ 53 + 1" by (simp only: of_int_less_iff)
  then have "\<bar>n\<bar> \<le> 2 ^ 53" by simp
  then have "real_of_int \<bar>n\<bar> \<le> real_of_int (2 ^ 53)" by (simp only: of_int_le_iff)
  then have n: "\<bar>real_of_int n\<bar> \<le> 2 ^ 53" by simp
  have "\<bar>real_of_int n * ?u\<bar> = \<bar>real_of_int n\<bar> * ?u"
    using u by (simp add: abs_mult)
  also have "\<dots> \<le> 2 ^ 53 * ?u"
    using n u by (simp add: mult_right_mono)
  also have "\<dots> = 2 powi (e + 1)"
    by (simp add: power_int_diff power_int_add)
  also have "\<dots> \<le> 2 powi 1023"
    using assms(2) unfolding e_def by (intro power_int_increasing) auto
  also have "\<dots> < (2::real) ^ 1024" by simp
  finally have "\<not> 2 ^ 1024 \<le> \<bar>real_of_int n * ?u\<bar>" by simp
  then show ?thesis
    using assms(1) by (simp add: to_double_def Let_def e_def [symmetric] n_def [symmetric])
qed

lemma to_double_eval:
  assumes "2 powi e \<le> \<bar>x\<bar>" and "\<bar>x\<bar> < 2 powi (e + 1)" and "- 1022 \<le> e" and "e \<le> 1022"
    and "round_half_even (x / 2 powi (e - 52)) = n"
  shows "to_double x = Finite (real_of_int n * 2 powi (e - 52))"
proof -
  have b: "binade x = e" using assms(1-3) by (rule binade_eq)
  have "0 < (2::real) powi e" by simp
  then have "0 < \<bar>x\<bar>" using assms(1) by linarith
  then have x0: "x \<noteq> 0" by simp
  show ?thesis
    using to_double_rounds [OF x0] assms(4,5) by (simp add: b)
qed

lemma to_double_finite:
  assumes "\<bar>x\<bar> < 2 ^ 1023"
  shows "\<exists>y. to_double x = Finite y"
proof (cases "x = 0")
  case True
  then show ?thesis by (simp add: to_double_def)
next
  case False
  have "\<bar>x\<bar> < 2 powi (1022 + 1)" using assms by simp
  then have "binade x \<le> 1022"
    using False by (intro binade_le) simp_all
  then show ?thesis
    using to_double_rounds [OF False] by blast
qed

lemma round_half_even_of_int: "round_half_even (real_of_int m) = m"
  by (simp add: round_half_even_def)

lemma to_double_multiple:
  assumes "y \<noteq> 0" and "y = real_of_int m * 2 powi (binade y - 52)" and "\<bar>y\<bar> < 2 ^ 1024"
  shows "to_double y = Finite y"
proof -
  let ?u = "2 powi (binade y - 52) :: real"
  have u: "?u \<noteq> 0" by simp
  have "y / ?u = real_of_int m"
    using assms(2) u by (metis nonzero_mult_div_cancel_right)
  then have "round_half_even (y / ?u) = m"
    by (simp add: round_half_even_of_int)
  then show ?thesis
    using assms by (simp add: to_double_def Let_def)
qed

lemma to_double_idem:
  assumes "to_double x = Finite y"
  shows "to_double y = Finite y"
proof (cases "y = 0")
  case True
  then show ?thesis by (simp add: to_double_def)
next
  case False
  note y0 = False
  have x0: "x \<noteq> 0"
    using assms False by (auto simp: to_double_def)
  define e where "e = binade x"
  define n where "n = round_half_even (x / 2 powi (e - 52))"
  let ?u = "2 powi (e - 52) :: real"
  have u: "0 < ?u" by simp
  have y: "y = real_of_int n * ?u" and fin: "\<bar>y\<bar> < 2 ^ 1024"
    using assms x0
    by (auto simp: to_double_def Let_def e_def n_def split: if_splits)
  have e_low: "- 1022 \<le> e"
    by (simp add: e_def binade_def)
  have "\<bar>x\<bar> < 2 powi (e + 1)"
    unfolding e_def using x0 by (rule binade_upper)
  then have "\<bar>x\<bar> / ?u < 2 powi (e + 1) / ?u"
    using u by (simp add: divide_strict_right_mono)
  also have "2 powi (e + 1) / ?u = (2::real) powi 53"
    by (simp add: power_int_diff [symmetric])
  finally have lt: "\<bar>x / ?u\<bar> < 2 ^ 53" using u by (simp add: abs_divide)
  have "\<bar>real_of_int n\<bar> \<le> \<bar>x / ?u\<bar> + 1 / 2"
    using round_half_even_bounds [of "x / ?u"] unfolding n_def by linarith
  then have "real_of_int \<bar>n\<bar> < real_of_int (2 ^ 53 + 1)" using lt by simp
  then have "\<bar>n\<bar> < 2 ^ 53 + 1" by (simp only: of_int_less_iff)
  then have n53: "\<bar>n\<bar> \<le> 2 ^ 53" by simp
  have ay: "\<bar>y\<bar> = real_of_int \<bar>n\<bar> * ?u"
    using u by (simp add: y abs_mult)
  have up: "2 ^ 53 * ?u = 2 powi (e + 1)"
    by (simp add: power_int_diff power_int_add)
  show ?thesis
  proof (cases "\<bar>n\<bar> = 2 ^ 53")
    case True
    have ay2: "\<bar>y\<bar> = 2 powi (e + 1)"
      using ay up by (simp add: True)
    have "binade y = e + 1"
    proof (rule binade_eq)
      show "2 powi (e + 1) \<le> \<bar>y\<bar>" using ay2 by simp
      have "(2::real) powi (e + 1) < 2 powi (e + 1 + 1)"
        by (rule power_int_strict_increasing) simp_all
      then show "\<bar>y\<bar> < 2 powi (e + 1 + 1)" using ay2 by simp
      show "- 1022 \<le> e + 1" using e_low by simp
    qed
    then have b: "binade y - 52 = (e - 52) + 1" by simp
    have "(2::real) powi ((e - 52) + 1) = 2 powi (e - 52) * 2 powi 1"
      by (rule power_int_add) simp
    then have p: "2 powi (binade y - 52) = 2 * ?u"
      by (simp only: b) simp
    have "even \<bar>n\<bar>"
      unfolding True by simp
    then have "even n" by simp
    then obtain m where m: "n = 2 * m" by (elim evenE)
    have e2: "real_of_int n * ?u = real_of_int m * (2 * ?u)"
      by (simp add: m)
    have e3: "real_of_int m * (2 * ?u) = real_of_int m * 2 powi (binade y - 52)"
      by (simp only: p)
    have "y = real_of_int m * 2 powi (binade y - 52)"
      by (rule trans [OF y trans [OF e2 e3]])
    with y0 show ?thesis
      using fin by (rule to_double_multiple)
  next
    case False
    then have "\<bar>n\<bar> < 2 ^ 53" using n53 by simp
    then have "real_of_int \<bar>n\<bar> < real_of_int (2 ^ 53)" by (simp only: of_int_less_iff)
    then have "real_of_int \<bar>n\<bar> < 2 ^ 53" by simp
    then have "real_of_int \<bar>n\<bar> * ?u < 2 ^ 53 * ?u"
      using u by (rule mult_strict_right_mono)
    then have "\<bar>y\<bar> < 2 powi (e + 1)"
      unfolding ay up .
    then have be: "binade y \<le> e"
      using y0 e_low by (intro binade_le)
    define k where "k = nat (e - binade y)"
    have ek: "e - 52 = (binade y - 52) + int k"
      using be by (simp add: k_def)
    have pa: "(2::real) powi ((binade y - 52) + int k)
                = 2 powi (binade y - 52) * 2 powi (int k)"
      by (rule power_int_add) simp
    have "?u = 2 powi (binade y - 52) * 2 ^ k"
      unfolding ek pa by simp
    then have e2: "real_of_int n * ?u = real_of_int (n * 2 ^ k) * 2 powi (binade y - 52)"
      by simp
    have "y = real_of_int (n * 2 ^ k) * 2 powi (binade y - 52)"
      by (rule trans [OF y e2])
    with y0 show ?thesis
      using fin by (rule to_double_multiple)
  qed
qed

lemma fl_add_zero_to_double: "fl_add (Finite 0) (to_double x) = to_double x"
proof (cases "to_double x")
  case (Finite y)
  then show ?thesis using to_double_idem [OF Finite] by (simp add: fl_add_def)
qed (simp_all add: fl_add_def)

lemma fl_add_zero_fl_div: "fl_add (Finite 0) (fl_div a n) = fl_div a n"
proof (cases a)
  case (Finite x)
  then show ?thesis
    by (cases "n = 0") (simp_all add: fl_div_def fl_add_zero_to_double, simp_all add: fl_add_def)
qed (simp_all add: fl_add_def fl_div_def)


subsection \<open>Roundings of the examples\<close>


lemma to_double_2: "to_double (2) = Finite (2)"
proof -
  have "to_double (2) = Finite (real_of_int 4503599627370496 * 2 powi (1 - 52))"
    by (rule to_double_eval) (simp_all add: round_half_even_def)
  then show ?thesis by simp
qed

lemma to_double_3: "to_double (3) = Finite (3)"
proof -
  have "to_double (3) = Finite (real_of_int 6755399441055744 * 2 powi (1 - 52))"
    by (rule to_double_eval) (simp_all add: round_half_even_def)
  then show ?thesis by simp
qed

lemma to_double_6: "to_double (6) = Finite (6)"
proof -
  have "to_double (6) = Finite (real_of_int 6755399441055744 * 2 powi (2 - 52))"
    by (rule to_double_eval) (simp_all add: round_half_even_def)
  then show ?thesis by simp
qed

lemma to_double_5: "to_double (5) = Finite (5)"
proof -
  have "to_double (5) = Finite (real_of_int 5629499534213120 * 2 powi (2 - 52))"
    by (rule to_double_eval) (simp_all add: round_half_even_def)
  then show ?thesis by simp
qed

lemma to_double_10: "to_double (10) = Finite (10)"
proof -
  have "to_double (10) = Finite (real_of_int 5629499534213120 * 2 powi (3 - 52))"
    by (rule to_double_eval) (simp_all add: round_half_even_def)
  then show ?thesis by simp
qed

lemma to_double_12: "to_double (12) = Finite (12)"
proof -
  have "to_double (12) = Finite (real_of_int 6755399441055744 * 2 powi (3 - 52))"
    by (rule to_double_eval) (simp_all add: round_half_even_def)
  then show ?thesis by simp
qed

lemma to_double_100: "to_double (100) = Finite (100)"
proof -
  have "to_double (100) = Finite (real_of_int 7036874417766400 * 2 powi (6 - 52))"
    by (rule to_double_eval) (simp_all add: round_half_even_def)
  then show ?thesis by simp
qed

lemma to_double_100_6: "to_double (50 / 3) = Finite (4691249611844267 / 281474976710656)"
proof -
  have "to_double (50 / 3) = Finite (real_of_int 4691249611844267 * 2 powi (4 - 52))"
    by (rule to_double_eval) (simp_all add: round_half_even_def)
  then show ?thesis by simp
qed

lemma to_double_sixth_again: "to_double (4691249611844267 / 281474976710656) = Finite (4691249611844267 / 281474976710656)"
proof -
  have "to_double (4691249611844267 / 281474976710656) = Finite (real_of_int 4691249611844267 * 2 powi (4 - 52))"
    by (rule to_double_eval) (simp_all add: round_half_even_def)
  then show ?thesis by simp
qed

lemma to_double_sixths_2: "to_double (4691249611844267 / 140737488355328) = Finite (4691249611844267 / 140737488355328)"
proof -
  have "to_double (4691249611844267 / 140737488355328) = Finite (real_of_int 4691249611844267 * 2 powi (5 - 52))"
    by (rule to_double_eval) (simp_all add: round_half_even_def)
  then show ?thesis by simp
qed

lemma to_double_sixths_3: "to_double (14073748835532801 / 281474976710656) = Finite (50)"
proof -
  have "to_double (14073748835532801 / 281474976710656) = Finite (real_of_int 7036874417766400 * 2 powi (5 - 52))"
    by (rule to_double_eval) (simp_all add: round_half_even_def)
  then show ?thesis by simp
qed

lemma to_double_sixths_4: "to_double (18764998447377067 / 281474976710656) = Finite (4691249611844267 / 70368744177664)"
proof -
  have "to_double (18764998447377067 / 281474976710656) = Finite (real_of_int 4691249611844267 * 2 powi (6 - 52))"
    by (rule to_double_eval) (simp_all add: round_half_even_def)
  then show ?thesis by simp
qed

lemma to_double_sixths_5: "to_double (23456248059221335 / 281474976710656) = Finite (2932031007402667 / 35184372088832)"
proof -
  have "to_double (23456248059221335 / 281474976710656) = Finite (real_of_int 5864062014805334 * 2 powi (6 - 52))"
    by (rule to_double_eval) (simp_all add: round_half_even_def)
  then show ?thesis by simp
qed

lemma to_double_sixths_6: "to_double (28147497671065603 / 281474976710656) = Finite (7036874417766401 / 70368744177664)"
proof -
  have "to_double (28147497671065603 / 281474976710656) = Finite (real_of_int 7036874417766401 * 2 powi (6 - 52))"
    by (rule to_double_eval) (simp_all add: round_half_even_def)
  then show ?thesis by simp
qed





lemma to_double_33_100: "to_double (5944751508129055 / 18014398509481984) = Finite (5944751508129055 / 18014398509481984)"
proof -
  have "to_double (5944751508129055 / 18014398509481984) = Finite (real_of_int 5944751508129055 * 2 powi (-2 - 52))"
    by (rule to_double_eval) (simp_all add: round_half_even_def)
  then show ?thesis by simp
qed

lemma to_double_33_200: "to_double (5944751508129055 / 36028797018963968) = Finite (5944751508129055 / 36028797018963968)"
proof -
  have "to_double (5944751508129055 / 36028797018963968) = Finite (real_of_int 5944751508129055 * 2 powi (-3 - 52))"
    by (rule to_double_eval) (simp_all add: round_half_even_def)
  then show ?thesis by simp
qed

lemma to_double_20_165: "to_double (726520691887408415 / 36028797018963968) = Finite (2837971452685189 / 140737488355328)"
proof -
  have "to_double (726520691887408415 / 36028797018963968) = Finite (real_of_int 5675942905370378 * 2 powi (4 - 52))"
    by (rule to_double_eval) (simp_all add: round_half_even_def)
  then show ?thesis by simp
qed

lemma to_double_504_25: "to_double (504 / 25) = Finite (5674535530486825 / 281474976710656)"
proof -
  have "to_double (504 / 25) = Finite (real_of_int 5674535530486825 * 2 powi (4 - 52))"
    by (rule to_double_eval) (simp_all add: round_half_even_def)
  then show ?thesis by simp
qed

lemma to_double_1_165: "to_double (41973548527093023 / 36028797018963968) = Finite (1311673391471657 / 1125899906842624)"
proof -
  have "to_double (41973548527093023 / 36028797018963968) = Finite (real_of_int 5246693565886628 * 2 powi (0 - 52))"
    by (rule to_double_eval) (simp_all add: round_half_even_def)
  then show ?thesis by simp
qed

lemma to_double_117_100: "to_double (117 / 100) = Finite (658651445502935 / 562949953421312)"
proof -
  have "to_double (117 / 100) = Finite (real_of_int 5269211564023480 * 2 powi (0 - 52))"
    by (rule to_double_eval) (simp_all add: round_half_even_def)
  then show ?thesis by simp
qed

lemma to_double_33_100_dec: "to_double (33 / 100) = Finite (5944751508129055 / 18014398509481984)"
proof -
  have "to_double (33 / 100) = Finite (real_of_int 5944751508129055 * 2 powi (-2 - 52))"
    by (rule to_double_eval) (simp_all add: round_half_even_def)
  then show ?thesis by simp
qed

section \<open>Properties of the allocator as JavaScript runs it\<close>

subsection \<open>The cost object\<close>

lemma map_of_set_own: "map_of (set_own k v cs) = (map_of cs)(k \<mapsto> v)"
  by (induction cs) auto

lemma keys_set_own: "fst ` set (set_own k v cs) = insert k (fst ` set cs)"
  by (induction cs) auto

lemma distinct_set_own: "distinct (map fst cs) \<Longrightarrow> distinct (map fst (set_own k v cs))"
  by (induction cs) (auto simp: keys_set_own)

lemma map_of_put_cost:
  "map_of (put_cost k v cs) = (if k = ''__proto__'' then map_of cs else (map_of cs)(k \<mapsto> v))"
  by (simp add: put_cost_def map_of_set_own)

lemma credit_zero: "credit (Finite 0) q = fl_add (Finite 0) q"
  by (simp add: credit_def or_zero_def is_falsy_def)

lemma add_cost_js_same:
  assumes "numeric_key cs u"
  shows "map_of (add_cost_js q cs u) u = Some (Num (credit (current_total cs u) q))"
  using assms
  by (auto simp: add_cost_js_def map_of_put_cost or_zero_plus_def numeric_key_def
        current_total_def credit_def credit_zero or_zero_def is_falsy_def
      split: option.splits js_value.splits)

lemma add_cost_js_other:
  assumes "pId \<noteq> u"
  shows "map_of (add_cost_js q cs pId) u = map_of cs u"
  using assms by (simp add: add_cost_js_def map_of_put_cost)

lemma numeric_key_add_cost_js:
  assumes "numeric_key cs u"
  shows "numeric_key (add_cost_js q cs pId) u"
proof (cases "pId = u")
  case True
  then show ?thesis
    using assms add_cost_js_same [OF assms, of q] by (simp add: numeric_key_def)
next
  case False
  then show ?thesis
    using assms by (simp add: numeric_key_def add_cost_js_other)
qed

lemma current_total_add_cost_js:
  assumes "numeric_key cs u"
  shows "current_total (add_cost_js q cs pId) u
           = (if pId = u then credit (current_total cs u) q else current_total cs u)"
  using add_cost_js_same [OF assms, of q]
  by (auto simp: current_total_def add_cost_js_other)

lemma foldl_credit_replicate_Suc:
  "foldl credit (credit v q) (replicate n q) = foldl credit v (replicate (Suc n) q)"
  by simp

lemma foldl_add_cost_js:
  assumes "numeric_key cs u"
  shows "numeric_key (foldl (add_cost_js q) cs pIds) u
       \<and> current_total (foldl (add_cost_js q) cs pIds) u
           = foldl credit (current_total cs u) (replicate (count_list pIds u) q)
       \<and> map_of (foldl (add_cost_js q) cs pIds) u
           = (if u \<in> set pIds
              then Some (Num (foldl credit (current_total cs u) (replicate (count_list pIds u) q)))
              else map_of cs u)"
  using assms
proof (induction pIds arbitrary: cs)
  case Nil
  then show ?case by simp
next
  case (Cons pId pIds)
  let ?cs1 = "add_cost_js q cs pId"
  have n1: "numeric_key ?cs1 u" using Cons.prems by (rule numeric_key_add_cost_js)
  note ih = Cons.IH [OF n1]
  note c1 = current_total_add_cost_js [OF Cons.prems, of q pId]
  show ?case
  proof (cases "pId = u")
    case True
    have m1: "map_of ?cs1 u = Some (Num (credit (current_total cs u) q))"
      using True add_cost_js_same [OF Cons.prems, of q] by simp
    have "u \<notin> set pIds \<Longrightarrow> count_list pIds u = 0" by simp
    then show ?thesis
      using ih c1 True m1 by (auto simp: replicate_app_Cons_same)
  next
    case False
    then show ?thesis
      using ih c1 by (simp add: add_cost_js_other)
  qed
qed

lemma foldl_add_cost_js_participants:
  "foldl (\<lambda>costs p. add_cost_js q costs (participant_id p)) cs ps
     = foldl (add_cost_js q) cs (map participant_id ps)"
  by (induction ps arbitrary: cs) auto

lemma map_of_init_fold:
  "map_of (foldl (\<lambda>costs p. put_cost (participant_id p) (Num (Finite 0)) costs) acc ps) k
     = (if k \<in> participant_id ` set ps \<and> k \<noteq> ''__proto__'' then Some (Num (Finite 0))
        else map_of acc k)"
  by (induction ps arbitrary: acc) (auto simp: map_of_put_cost)

lemma map_of_init_costs_js:
  "map_of (init_costs_js ps) k
     = (if k \<in> participant_id ` set ps \<and> k \<noteq> ''__proto__'' then Some (Num (Finite 0)) else None)"
  by (simp add: init_costs_js_def map_of_init_fold)

lemma numeric_key_init_costs_js:
  "numeric_key (init_costs_js ps) k
     \<longleftrightarrow> k \<noteq> ''__proto__'' \<and> (k \<in> participant_id ` set ps \<or> \<not> inherited_property k)"
  by (auto simp: numeric_key_def map_of_init_costs_js)

lemma current_total_init_costs_js: "current_total (init_costs_js ps) k = Finite 0"
  by (simp add: current_total_def map_of_init_costs_js)




subsection \<open>The loops\<close>

lemma assign_item_js_Inr:
  assumes "\<not> throws_on a item"
  shows "assign_item_js a st item =
     Inr (if assigned_to a item = [] then st
          else \<lparr>costs_js = foldl (add_cost_js (fl_div (Finite (price item))
                                 (length (assigned_to a item))))
                           (costs_js st) (assigned_to a item),
                assignedItemIds_js = insert (item_id item) (assignedItemIds_js st),
                divisors = divisors st @ [length (assigned_to a item)]\<rparr>)"
  using assms
  by (auto simp: assign_item_js_def throws_on_def assigned_to_def Let_def split: option.splits)

lemma assign_items_js_char:
  assumes "\<forall>i\<in>set its. \<not> throws_on a i"
  shows "\<exists>st'. assign_items_js a st its = Inr st'
     \<and> assignedItemIds_js st'
         = assignedItemIds_js st \<union> item_id ` {i \<in> set its. assigned_to a i \<noteq> []}
     \<and> divisors st'
         = divisors st @ map (\<lambda>i. length (assigned_to a i)) (filter (\<lambda>i. assigned_to a i \<noteq> []) its)
     \<and> (\<forall>u. numeric_key (costs_js st) u \<longrightarrow>
            numeric_key (costs_js st') u
          \<and> current_total (costs_js st') u
              = foldl credit (current_total (costs_js st) u) (quotients_for a its u)
          \<and> map_of (costs_js st') u
              = (if quotients_for a its u = [] then map_of (costs_js st) u
                 else Some (Num (foldl credit (current_total (costs_js st) u)
                                   (quotients_for a its u)))))"
  using assms
proof (induction its arbitrary: st)
  case Nil
  then show ?case by (simp add: quotients_for_def)
next
  case (Cons item rest)
  let ?l = "assigned_to a item"
  let ?q = "fl_div (Finite (price item)) (length ?l)"
  let ?st1 = "if ?l = [] then st
          else \<lparr>costs_js = foldl (add_cost_js ?q) (costs_js st) ?l,
                assignedItemIds_js = insert (item_id item) (assignedItemIds_js st),
                divisors = divisors st @ [length ?l]\<rparr>"
  have nt: "\<not> throws_on a item" and rest: "\<forall>i\<in>set rest. \<not> throws_on a i"
    using Cons.prems by auto
  have step: "assign_item_js a st item = Inr ?st1"
    using nt by (rule assign_item_js_Inr)
  obtain st' where st': "assign_items_js a ?st1 rest = Inr st'"
    and ids: "assignedItemIds_js st'
         = assignedItemIds_js ?st1 \<union> item_id ` {i \<in> set rest. assigned_to a i \<noteq> []}"
    and dv: "divisors st'
         = divisors ?st1 @ map (\<lambda>i. length (assigned_to a i)) (filter (\<lambda>i. assigned_to a i \<noteq> []) rest)"
    and ks: "\<And>u. numeric_key (costs_js ?st1) u \<Longrightarrow>
            numeric_key (costs_js st') u
          \<and> current_total (costs_js st') u
              = foldl credit (current_total (costs_js ?st1) u) (quotients_for a rest u)
          \<and> map_of (costs_js st') u
              = (if quotients_for a rest u = [] then map_of (costs_js ?st1) u
                 else Some (Num (foldl credit (current_total (costs_js ?st1) u)
                                   (quotients_for a rest u))))"
    using Cons.IH [OF rest, of ?st1] by blast
  have 1: "assign_items_js a st (item # rest) = Inr st'"
    using step st' by simp
  have 2: "assignedItemIds_js st'
         = assignedItemIds_js st \<union> item_id ` {i \<in> set (item # rest). assigned_to a i \<noteq> []}"
    unfolding ids by auto
  have 3: "divisors st'
         = divisors st @ map (\<lambda>i. length (assigned_to a i))
                            (filter (\<lambda>i. assigned_to a i \<noteq> []) (item # rest))"
    unfolding dv by simp
  have q: "quotients_for a (item # rest) u
             = replicate (count_list ?l u) ?q @ quotients_for a rest u" for u
    by (simp add: quotients_for_def)
  have 4: "numeric_key (costs_js st') u
          \<and> current_total (costs_js st') u
              = foldl credit (current_total (costs_js st) u) (quotients_for a (item # rest) u)
          \<and> map_of (costs_js st') u
              = (if quotients_for a (item # rest) u = [] then map_of (costs_js st) u
                 else Some (Num (foldl credit (current_total (costs_js st) u)
                                   (quotients_for a (item # rest) u))))"
    if nk: "numeric_key (costs_js st) u" for u
  proof -
    note f = foldl_add_cost_js [OF nk, of ?q ?l]
    have n1: "numeric_key (costs_js ?st1) u"
      using f nk by simp
    have c1: "current_total (costs_js ?st1) u
                = foldl credit (current_total (costs_js st) u) (replicate (count_list ?l u) ?q)"
      using f by simp
    have m1: "map_of (costs_js ?st1) u
                = (if u \<in> set ?l
                   then Some (Num (foldl credit (current_total (costs_js st) u)
                                     (replicate (count_list ?l u) ?q)))
                   else map_of (costs_js st) u)"
      using f by simp
    define R where "R = replicate (count_list ?l u) ?q"
    define Q where "Q = quotients_for a rest u"
    define c0 where "c0 = current_total (costs_js st) u"
    define m0 where "m0 = map_of (costs_js st) u"
    define c1v where "c1v = current_total (costs_js ?st1) u"
    define m1v where "m1v = map_of (costs_js ?st1) u"
    define mf where "mf = map_of (costs_js st') u"
    define cf where "cf = current_total (costs_js st') u"
    have z: "u \<in> set ?l \<longleftrightarrow> R \<noteq> []"
      by (simp add: R_def count_list_0_iff)
    have a1: "c1v = foldl credit c0 R"
      using c1 by (simp only: c1v_def c0_def R_def)
    have a2: "m1v = (if R \<noteq> [] then Some (Num (foldl credit c0 R)) else m0)"
      using m1 z by (simp only: m1v_def c0_def R_def m0_def; simp)
    have a3: "cf = foldl credit c1v Q"
      using ks [OF n1] by (simp only: cf_def c1v_def Q_def)
    have a4: "mf = (if Q = [] then m1v else Some (Num (foldl credit c1v Q)))"
      using ks [OF n1] by (simp only: mf_def m1v_def c1v_def Q_def)
    have b1: "cf = foldl credit c0 (R @ Q)"
      by (simp add: a3 a1)
    have b2: "mf = (if R @ Q = [] then m0 else Some (Num (foldl credit c0 (R @ Q))))"
      by (simp add: a4 a2 a1)
    have nkf: "numeric_key (costs_js st') u"
      using ks [OF n1] by blast
    show ?thesis
      using nkf b1 b2
      by (simp only: q cf_def mf_def c0_def m0_def R_def Q_def; simp)
  qed
  show ?case
    using 1 2 3 4 by blast
qed

lemma unassigned_filter_js:
  assumes "assignedItemIds_js st' = item_id ` {i \<in> set its. assigned_to a i \<noteq> []}"
  shows "filter (\<lambda>item. item_id item \<notin> assignedItemIds_js st') its
           = filter (\<lambda>item. assigned_to a item = []) its"
proof (rule filter_cong [OF refl])
  fix x assume x: "x \<in> set its"
  have same: "(assigned_to a j = []) = (assigned_to a x = [])" if "item_id j = item_id x" for j
    using that by (simp add: assigned_to_def)
  have "item_id x \<in> assignedItemIds_js st'
          \<longleftrightarrow> (\<exists>j\<in>set its. assigned_to a j \<noteq> [] \<and> item_id x = item_id j)"
    unfolding assms by blast
  also have "\<dots> \<longleftrightarrow> assigned_to a x \<noteq> []"
    using x same by metis
  finally show "(item_id x \<notin> assignedItemIds_js st') = (assigned_to a x = [])"
    by blast
qed


lemma costBreakdown_js_char:
  assumes "\<forall>i\<in>set its. \<not> throws_on a i"
  shows "\<exists>bd ds. costBreakdown_js its ps a = Inr (bd, ds)
     \<and> 0 \<notin> set ds
     \<and> (\<forall>i\<in>set its. assigned_to a i \<noteq> [] \<longrightarrow> length (assigned_to a i) \<in> set ds)
     \<and> (\<forall>u. u \<noteq> ''__proto__'' \<and> (u \<in> participant_id ` set ps \<or> \<not> inherited_property u) \<longrightarrow>
           map_of bd u
             = (if quotients_for a its u @ pool_portions a its ps u = []
                then map_of (init_costs_js ps) u
                else Some (Num (foldl credit (Finite 0)
                                  (quotients_for a its u @ pool_portions a its ps u)))))"
proof -
  let ?st0 = "\<lparr>costs_js = init_costs_js ps, assignedItemIds_js = {}, divisors = []\<rparr>"
  let ?un = "filter (\<lambda>item. assigned_to a item = []) its"
  obtain st' where st': "assign_items_js a ?st0 its = Inr st'"
    and ids: "assignedItemIds_js st' = item_id ` {i \<in> set its. assigned_to a i \<noteq> []}"
    and dv: "divisors st'
         = map (\<lambda>i. length (assigned_to a i)) (filter (\<lambda>i. assigned_to a i \<noteq> []) its)"
    and ks: "\<And>u. numeric_key (init_costs_js ps) u \<Longrightarrow>
            numeric_key (costs_js st') u
          \<and> current_total (costs_js st') u = foldl credit (Finite 0) (quotients_for a its u)
          \<and> map_of (costs_js st') u
              = (if quotients_for a its u = [] then map_of (init_costs_js ps) u
                 else Some (Num (foldl credit (Finite 0) (quotients_for a its u))))"
    using assign_items_js_char [OF assms, of ?st0]
    by (auto simp: current_total_init_costs_js)
  have un: "filter (\<lambda>item. item_id item \<notin> assignedItemIds_js st') its = ?un"
    by (rule unassigned_filter_js [OF ids])
  have d0: "0 \<notin> set (divisors st')"
    unfolding dv by auto
  have d1: "\<forall>i\<in>set its. assigned_to a i \<noteq> [] \<longrightarrow> length (assigned_to a i) \<in> set (divisors st')"
    unfolding dv by auto
  show ?thesis
  proof (cases "?un = [] \<or> ps = []")
    case True
    then have r: "costBreakdown_js its ps a = Inr (costs_js st', divisors st')"
      by (auto simp: costBreakdown_js_def st' un)
    have p: "pool_portions a its ps u = []" for u
      using True by (auto simp: pool_portions_def)
    show ?thesis
      using r d0 d1 ks by (simp add: p numeric_key_init_costs_js)
  next
    case False
    let ?portion = "fl_div (totalBillAmount_js ?un) (length ps)"
    let ?c = "foldl (add_cost_js ?portion) (costs_js st') (map participant_id ps)"
    have r: "costBreakdown_js its ps a = Inr (?c, divisors st' @ [length ps])"
      using False
      by (simp add: costBreakdown_js_def st' un Let_def foldl_add_cost_js_participants)
    have d: "0 \<notin> set (divisors st' @ [length ps])"
      using d0 False by simp
    have p: "pool_portions a its ps u
               = replicate (count_list (map participant_id ps) u) ?portion" for u
      using False by (simp add: pool_portions_def)
    have v: "map_of ?c u
             = (if quotients_for a its u @ pool_portions a its ps u = []
                then map_of (init_costs_js ps) u
                else Some (Num (foldl credit (Finite 0)
                                  (quotients_for a its u @ pool_portions a its ps u))))"
      if "u \<noteq> ''__proto__'' \<and> (u \<in> participant_id ` set ps \<or> \<not> inherited_property u)" for u
    proof -
      have nk0: "numeric_key (init_costs_js ps) u"
        using that by (simp add: numeric_key_init_costs_js)
      note k = ks [OF nk0]
      have nk: "numeric_key (costs_js st') u" using k by simp
      note f = foldl_add_cost_js [OF nk, of ?portion "map participant_id ps"]
      have z: "u \<in> set (map participant_id ps)
                 \<longleftrightarrow> replicate (count_list (map participant_id ps) u) ?portion \<noteq> []"
        by (simp add: count_list_0_iff)
      show ?thesis
        using f k z unfolding p by (auto simp: count_list_0_iff)
    qed
    have d2: "\<forall>i\<in>set its. assigned_to a i \<noteq> []
                \<longrightarrow> length (assigned_to a i) \<in> set (divisors st' @ [length ps])"
      using d1 by simp
    show ?thesis using r d d2 v by blast
  qed
qed

lemma assign_items_js_unassigned:
  assumes "\<forall>i\<in>set its. \<not> throws_on a i \<and> assigned_to a i = []"
  shows "assign_items_js a st its = Inr st"
  using assms by (induction its) (auto simp: assign_item_js_Inr)


lemma assign_item_js_isShared:
  "assign_item_js a st (item\<lparr>isShared := flag\<rparr>) = assign_item_js a st item"
  by (simp add: assign_item_js_def Let_def split: option.splits)

lemma assign_items_js_isShared:
  "assign_items_js a st (map (\<lambda>item. item\<lparr>isShared := flag item\<rparr>) its) = assign_items_js a st its"
proof (induction its arbitrary: st)
  case Nil
  then show ?case by simp
next
  case (Cons item rest)
  then show ?case
    by (cases "assign_item_js a st item") (simp_all add: assign_item_js_isShared)
qed

lemma totalBillAmount_js_isShared:
  "totalBillAmount_js (map (\<lambda>item. item\<lparr>isShared := flag item\<rparr>) its) = totalBillAmount_js its"
  by (simp add: totalBillAmount_js_def foldl_map)

lemma costBreakdown_js_isShared:
  "costBreakdown_js (map (\<lambda>item. item\<lparr>isShared := flag item\<rparr>) its) ps a = costBreakdown_js its ps a"
proof (cases "assign_items_js a \<lparr>costs_js = init_costs_js ps, assignedItemIds_js = {}, divisors = []\<rparr> its")
  case (Inl e)
  then show ?thesis
    by (simp add: costBreakdown_js_def assign_items_js_isShared)
next
  case (Inr st)
  let ?g = "\<lambda>item. item\<lparr>isShared := flag item\<rparr>"
  have f: "filter (\<lambda>item. item_id item \<notin> assignedItemIds_js st) (map ?g its)
             = map ?g (filter (\<lambda>item. item_id item \<notin> assignedItemIds_js st) its)"
    by (simp add: filter_map o_def)
  show ?thesis
    by (simp add: costBreakdown_js_def assign_items_js_isShared Inr f totalBillAmount_js_isShared
          Let_def)
qed

subsection \<open>Runs without rounding\<close>















subsection \<open>Evaluation\<close>

lemmas js_eval =
  costBreakdown_js_def assign_item_js_def init_costs_js_def add_cost_js_def put_cost_def
  or_zero_plus_def inherited_property_def Object_prototype_function_def or_zero_def
  is_falsy_def fl_add_def fl_div_def totalBillAmount_js_def Let_def

subsection \<open>The equal split, as JavaScript runs it\<close>

text \<open>
  The equal split of a bill without assignments (C4) holds of \<open>costBreakdown_js\<close> too,
  with the sum and the quotient rounded as the code rounds them: when no item has an
  assignment entry and none raises, the one division is by the number of participants,
  and every participant's total is \<open>totalBillAmount / N\<close> as the code computes it.
\<close>

lemma equal_split_in_doubles:
  assumes "extractedItems \<noteq> []"
    and "\<forall>item\<in>set extractedItems.
           \<not> throws_on itemAssignments item \<and> assigned_to itemAssignments item = []"
    and "participants \<noteq> []"
    and "distinct (map participant_id participants)"
  shows "\<exists>breakdown. costBreakdown_js extractedItems participants itemAssignments
                        = Inr (breakdown, [length participants])
           \<and> (\<forall>p\<in>set participants. participant_id p \<noteq> ''__proto__'' \<longrightarrow>
                 map_of breakdown (participant_id p)
                   = Some (Num (fl_div (totalBillAmount_js extractedItems)
                                  (length participants))))"
proof -
  let ?st0 = "\<lparr>costs_js = init_costs_js participants, assignedItemIds_js = {}, divisors = []\<rparr>"
  let ?portion = "fl_div (totalBillAmount_js extractedItems) (length participants)"
  let ?c = "foldl (add_cost_js ?portion) (init_costs_js participants) (map participant_id participants)"
  have st: "assign_items_js itemAssignments ?st0 extractedItems = Inr ?st0"
    using assms(2) by (rule assign_items_js_unassigned)
  have r: "costBreakdown_js extractedItems participants itemAssignments
             = Inr (?c, [length participants])"
    using assms(1,3) by (simp add: costBreakdown_js_def st foldl_add_cost_js_participants)
  have "map_of ?c (participant_id p) = Some (Num ?portion)"
    if p: "p \<in> set participants" and np: "participant_id p \<noteq> ''__proto__''" for p
  proof -
    have nk: "numeric_key (init_costs_js participants) (participant_id p)"
      using p np by (simp add: numeric_key_init_costs_js)
    have cnt: "count_list (map participant_id participants) (participant_id p) = 1"
      using p assms(4) by (intro count_list_distinct) auto
    show ?thesis
      using foldl_add_cost_js [OF nk, of ?portion "map participant_id participants"] p
      by (simp add: cnt current_total_init_costs_js credit_zero fl_add_zero_fl_div)
  qed
  then show ?thesis using r by blast
qed

text \<open>
  Ids that name members of \<open>Object.prototype\<close>: an item priced 10 whose assignment lists
  \<open>toString\<close> and \<open>__proto__\<close>. The quotient is 5; under \<open>toString\<close> the breakdown gets a
  string (the inherited function's text followed by the digits), under \<open>__proto__\<close>
  nothing.
\<close>

lemma inherited_ids_example:
  "costBreakdown_js
     [\<lparr>item_id = ''1'', description = ''Tea'', price = 10, isShared = None\<rparr>]
     [\<lparr>participant_id = ''a'', name = ''Asha''\<rparr>]
     [''1'' \<mapsto> [''toString'', ''__proto__'']]
   = Inr ([(''a'', Num (Finite 0)), (''toString'', SomeString)], [2])"
  by (simp add: js_eval to_double_5)

subsection \<open>Claims about the allocator\<close>




text \<open>
  C2. The allocator never reads \<open>isShared\<close>: changing the flags of the items changes nothing
  in what it returns or raises. An item flagged \<open>isShared\<close>, priced 10 and assigned to \<open>a\<close>
  alone of the two participants \<open>a\<close> and \<open>b\<close>, is charged to \<open>a\<close> in full and not split:
  the breakdown is \<open>a: 10, b: 0\<close>, where the claim has \<open>a: 5, b: 5\<close>.
\<close>

theorem isShared_is_never_read:
  "costBreakdown_js (map (\<lambda>item. item\<lparr>isShared := flag item\<rparr>) extractedItems)
       participants itemAssignments
     = costBreakdown_js extractedItems participants itemAssignments
   \<and> costBreakdown_js
       [\<lparr>item_id = ''1'', description = ''Tax'', price = 10, isShared = Some True\<rparr>]
       [\<lparr>participant_id = ''a'', name = ''Asha''\<rparr>, \<lparr>participant_id = ''b'', name = ''Ben''\<rparr>]
       [''1'' \<mapsto> [''a'']]
     = Inr ([(''a'', Num (Finite 10)), (''b'', Num (Finite 0))], [1])"
  by (simp add: costBreakdown_js_isShared) (simp add: js_eval to_double_10)








text \<open>
  C9 fails as stated. An item priced 100 whose assignment lists \<open>a\<close> six times: the six
  rounded quotients \<open>100 / 6\<close>, added one by one, give \<open>100.00000000000001\<close> and not the
  price.
\<close>

theorem six_entries_counterexample:
  "costBreakdown_js
       [\<lparr>item_id = ''1'', description = ''Tea'', price = 100, isShared = None\<rparr>]
       [\<lparr>participant_id = ''a'', name = ''Asha''\<rparr>]
       [''1'' \<mapsto> [''a'', ''a'', ''a'', ''a'', ''a'', ''a'']]
     = Inr ([(''a'', Num (Finite (7036874417766401 / 70368744177664)))], [6])
   \<and> (7036874417766401 / 70368744177664 :: real) \<noteq> 100"
  by (simp add: js_eval to_double_100_6 to_double_sixth_again to_double_sixths_2 to_double_sixths_3
        to_double_sixths_4 to_double_sixths_5 to_double_sixths_6)

text \<open>
  C9, amended. On every input on which the allocator does not raise: for every item whose
  assignment list is not empty, the price is divided by the number of entries counting
  duplicates (that number is among the divisors); and every id listed by some item, other
  than \<open>__proto__\<close> and being a participant's or no member of \<open>Object.prototype\<close>, has as
  its total the rounded quotients \<open>price / n\<close>, one for each of its occurrences among the
  \<open>n\<close> entries of each item, followed by its portions of the pool, added up in order from 0
  with every sum rounded. The amount handed out for an item is its price up to that
  rounding only.
\<close>

theorem quotient_per_entry:
  assumes "\<forall>i\<in>set extractedItems. \<not> throws_on itemAssignments i"
  shows "\<exists>breakdown ds.
           costBreakdown_js extractedItems participants itemAssignments = Inr (breakdown, ds)
         \<and> (\<forall>item\<in>set extractedItems.
               assigned_to itemAssignments item \<noteq> []
                 \<longrightarrow> length (assigned_to itemAssignments item) \<in> set ds)
         \<and> (\<forall>pId. pId \<noteq> ''__proto__''
                 \<and> (pId \<in> participant_id ` set participants \<or> \<not> inherited_property pId)
                 \<and> quotients_for itemAssignments extractedItems pId \<noteq> [] \<longrightarrow>
               map_of breakdown pId
                 = Some (Num (foldl credit (Finite 0)
                      (quotients_for itemAssignments extractedItems pId
                         @ pool_portions itemAssignments extractedItems participants pId))))"
proof -
  obtain bd ds where r: "costBreakdown_js extractedItems participants itemAssignments = Inr (bd, ds)"
    and d: "\<forall>i\<in>set extractedItems. assigned_to itemAssignments i \<noteq> []
              \<longrightarrow> length (assigned_to itemAssignments i) \<in> set ds"
    and v: "\<And>k. k \<noteq> ''__proto__'' \<and> (k \<in> participant_id ` set participants \<or> \<not> inherited_property k) \<Longrightarrow>
           map_of bd k
             = (if quotients_for itemAssignments extractedItems k
                     @ pool_portions itemAssignments extractedItems participants k = []
                then map_of (init_costs_js participants) k
                else Some (Num (foldl credit (Finite 0)
                                  (quotients_for itemAssignments extractedItems k
                                     @ pool_portions itemAssignments extractedItems participants k))))"
    using costBreakdown_js_char [OF assms, of participants] by blast
  have "map_of bd pId
          = Some (Num (foldl credit (Finite 0)
               (quotients_for itemAssignments extractedItems pId
                  @ pool_portions itemAssignments extractedItems participants pId)))"
    if "pId \<noteq> ''__proto__''
          \<and> (pId \<in> participant_id ` set participants \<or> \<not> inherited_property pId)
          \<and> quotients_for itemAssignments extractedItems pId \<noteq> []" for pId
    using v [of pId] that by simp
  then show ?thesis using r d by blast
qed

theorem quotient_per_entry_witness:
  "\<exists>breakdown ds.
     costBreakdown_js
       [\<lparr>item_id = ''1'', description = ''Tea'', price = 9, isShared = None\<rparr>]
       [\<lparr>participant_id = ''a'', name = ''Asha''\<rparr>, \<lparr>participant_id = ''b'', name = ''Ben''\<rparr>]
       [''1'' \<mapsto> [''a'', ''b'', ''a'']] = Inr (breakdown, ds)
     \<and> 3 \<in> set ds
     \<and> map_of breakdown ''a'' = Some (Num (Finite 6))
     \<and> map_of breakdown ''b'' = Some (Num (Finite 3))"
proof -
  let ?item = "\<lparr>item_id = ''1'', description = ''Tea'', price = 9, isShared = None\<rparr>"
  let ?ps = "[\<lparr>participant_id = ''a'', name = ''Asha''\<rparr>, \<lparr>participant_id = ''b'', name = ''Ben''\<rparr>]"
  let ?a = "[''1'' \<mapsto> [''a'', ''b'', ''a'']]"
  have a: "assigned_to ?a ?item = [''a'', ''b'', ''a'']"
    by (simp add: assigned_to_def)
  have h: "\<forall>i\<in>set [?item]. \<not> throws_on ?a i"
    by (simp add: throws_on_def)
  have qa: "foldl credit (Finite 0) (quotients_for ?a [?item] ''a'' @ pool_portions ?a [?item] ?ps ''a'')
              = Finite 6"
    by (simp add: quotients_for_def pool_portions_def a credit_def or_zero_def is_falsy_def
          fl_add_def fl_div_def to_double_3 to_double_6)
  have qb: "foldl credit (Finite 0) (quotients_for ?a [?item] ''b'' @ pool_portions ?a [?item] ?ps ''b'')
              = Finite 3"
    by (simp add: quotients_for_def pool_portions_def a credit_def or_zero_def is_falsy_def
          fl_add_def fl_div_def to_double_3)
  have na: "quotients_for ?a [?item] ''a'' \<noteq> []" and nb: "quotients_for ?a [?item] ''b'' \<noteq> []"
    by (simp_all add: quotients_for_def a)
  obtain bd ds where r: "costBreakdown_js [?item] ?ps ?a = Inr (bd, ds)"
    and d: "\<forall>item\<in>set [?item]. assigned_to ?a item \<noteq> [] \<longrightarrow> length (assigned_to ?a item) \<in> set ds"
    and v: "\<forall>pId. pId \<noteq> ''__proto__''
                 \<and> (pId \<in> participant_id ` set ?ps \<or> \<not> inherited_property pId)
                 \<and> quotients_for ?a [?item] pId \<noteq> [] \<longrightarrow>
               map_of bd pId
                 = Some (Num (foldl credit (Finite 0)
                      (quotients_for ?a [?item] pId @ pool_portions ?a [?item] ?ps pId)))"
    using quotient_per_entry [OF h, of ?ps] by blast
  have "3 \<in> set ds" using d a by (simp add: eval_nat_numeral)
  moreover have "map_of bd ''a'' = Some (Num (Finite 6))"
    using v [rule_format, of "''a''"] na unfolding qa by simp
  moreover have "map_of bd ''b'' = Some (Num (Finite 3))"
    using v [rule_format, of "''b''"] nb unfolding qb by simp
  ultimately show ?thesis using r by blast
qed
section \<open>Properties of the extractor\<close>

subsection \<open>Digits and rounding\<close>

lemma toString_1: "toString (Suc 0) = ''1''"
  by code_simp

lemma toString_2: "toString (Suc (Suc 0)) = ''2''"
  by code_simp

subsection \<open>Normalisation of the two schemas\<close>

lemma billItems_A_length:
  "items parsedResponse = Some its \<Longrightarrow> length (billItems_A parsedResponse) = length its"
  by (simp add: billItems_A_def Let_def)

lemma toFixed2_nearest:
  "\<exists>n::int. toFixed2 x = real_of_int n / 100 \<and> \<bar>real_of_int n - 100 * x\<bar> \<le> 1 / 2"
proof (cases "x < 0")
  case True
  define n where "n = \<lfloor>- x * 100 + 1 / 2\<rfloor>"
  have "real_of_int n \<le> - x * 100 + 1 / 2" and "- x * 100 + 1 / 2 < real_of_int n + 1"
    unfolding n_def by linarith+
  then have "\<bar>real_of_int (- n) - 100 * x\<bar> \<le> 1 / 2"
    unfolding of_int_minus by linarith
  moreover have "toFixed2 x = real_of_int (- n) / 100"
    using True by (simp add: toFixed2_def n_def)
  ultimately show ?thesis by blast
next
  case False
  define n where "n = \<lfloor>x * 100 + 1 / 2\<rfloor>"
  have "real_of_int n \<le> x * 100 + 1 / 2" and "x * 100 + 1 / 2 < real_of_int n + 1"
    unfolding n_def by linarith+
  then have "\<bar>real_of_int n - 100 * x\<bar> \<le> 1 / 2"
    by linarith
  moreover have "toFixed2 x = real_of_int n / 100"
    using False by (simp add: toFixed2_def n_def)
  ultimately show ?thesis by blast
qed

lemma plus_toFixed2_Finite:
  assumes "\<bar>s\<bar> < 10 ^ 21"
  shows "\<exists>n::int. \<bar>real_of_int n - 100 * s\<bar> \<le> 1 / 2
           \<and> to_double (real_of_int n / 100) = Finite (finite_value (plus_toFixed2 (Finite s)))"
proof -
  obtain n :: int where n: "toFixed2 s = real_of_int n / 100"
    and b: "\<bar>real_of_int n - 100 * s\<bar> \<le> 1 / 2"
    using toFixed2_nearest by blast
  have "\<bar>real_of_int n / 100\<bar> \<le> \<bar>s\<bar> + 1 / 200"
    using b by linarith
  also have "\<dots> < 10 ^ 21 + 1" using assms by simp
  also have "\<dots> < (2::real) ^ 1023" by simp
  finally obtain y where y: "to_double (real_of_int n / 100) = Finite y"
    using to_double_finite by blast
  have "plus_toFixed2 (Finite s) = Finite y"
    using assms y by (simp add: plus_toFixed2_def n)
  then show ?thesis using b y by (auto simp: finite_value_def)
qed

lemma billItems_A_nth:
  assumes "items parsedResponse = Some its" and "j < length its"
  shows "billItems_A parsedResponse ! j =
           \<lparr>item_id = toString (j + 1),
            description = raw_description (its ! j),
            price = finite_value (plus_toFixed2
                      (fl_add (Finite (raw_price (its ! j)))
                         (fl_div (fl_add (Finite (case cgst parsedResponse of None \<Rightarrow> 0 | Some c \<Rightarrow> c))
                                         (Finite (case sgst parsedResponse of None \<Rightarrow> 0 | Some c \<Rightarrow> c)))
                            (length its)))),
            isShared = None\<rparr>"
proof -
  have "its \<noteq> []" using assms(2) by auto
  then show ?thesis
    using assms by (simp add: billItems_A_def Let_def nth_enumerate_eq)
qed

text \<open>
  C6. For every first-version response with a non-empty item list, the tax share of an
  item is \<open>(cgst + sgst) / itemCount\<close> and is added to the parsed price of every item,
  each operation rounded as a double; the returned price is that sum \<open>s\<close> rounded to two
  decimal places: the double nearest to \<open>n / 100\<close>, for an integer \<open>n\<close> at most one half
  away from \<open>100 * s\<close> (from \<open>10 ^ 21\<close> on, \<open>s\<close> itself). Descriptions and the number of
  items are kept. In particular one item "Tea" at 10 with \<open>cgst = 1\<close> and \<open>sgst = 1\<close>
  gives exactly one item, priced 12.
\<close>

theorem schemaA_tax_spread_over_items:
  assumes "items parsedResponse = Some its" and "its \<noteq> []"
    and "perItemTaxShare
           = fl_div (fl_add (Finite (case cgst parsedResponse of None \<Rightarrow> 0 | Some c \<Rightarrow> c))
                            (Finite (case sgst parsedResponse of None \<Rightarrow> 0 | Some c \<Rightarrow> c)))
               (length its)"
  shows "length (billItems_A parsedResponse) = length its
     \<and> (\<forall>j<length its.
           description (billItems_A parsedResponse ! j) = raw_description (its ! j)
         \<and> (\<forall>s. fl_add (Finite (raw_price (its ! j))) perItemTaxShare = Finite s
                  \<and> \<bar>s\<bar> < 10 ^ 21 \<longrightarrow>
                (\<exists>n::int. \<bar>real_of_int n - 100 * s\<bar> \<le> 1 / 2
                   \<and> to_double (real_of_int n / 100)
                       = Finite (price (billItems_A parsedResponse ! j))))
         \<and> (\<forall>s. fl_add (Finite (raw_price (its ! j))) perItemTaxShare = Finite s
                  \<and> 10 ^ 21 \<le> \<bar>s\<bar> \<longrightarrow>
                price (billItems_A parsedResponse ! j) = s))
     \<and> billItems_A
          \<lparr>items = Some [\<lparr>raw_description = ''Tea'', raw_price = 10, isTax = None\<rparr>],
           cgst = Some 1, sgst = Some 1\<rparr>
        = [\<lparr>item_id = ''1'', description = ''Tea'', price = 12, isShared = None\<rparr>]"
proof (intro conjI allI impI)
  show "length (billItems_A parsedResponse) = length its"
    using assms(1) by (rule billItems_A_length)
next
  fix j assume j: "j < length its"
  note nth = billItems_A_nth [OF assms(1) j]
  show "description (billItems_A parsedResponse ! j) = raw_description (its ! j)"
    by (simp add: nth)
  fix s assume s: "fl_add (Finite (raw_price (its ! j))) perItemTaxShare = Finite s
                  \<and> \<bar>s\<bar> < 10 ^ 21"
  have p: "price (billItems_A parsedResponse ! j) = finite_value (plus_toFixed2 (Finite s))"
    using s by (simp add: nth assms(3))
  show "\<exists>n::int. \<bar>real_of_int n - 100 * s\<bar> \<le> 1 / 2
                   \<and> to_double (real_of_int n / 100)
                       = Finite (price (billItems_A parsedResponse ! j))"
    unfolding p using s by (intro plus_toFixed2_Finite) simp
next
  fix j assume j: "j < length its"
  note nth = billItems_A_nth [OF assms(1) j]
  fix s assume s: "fl_add (Finite (raw_price (its ! j))) perItemTaxShare = Finite s
                  \<and> 10 ^ 21 \<le> \<bar>s\<bar>"
  then show "price (billItems_A parsedResponse ! j) = s"
    by (simp add: nth assms(3) plus_toFixed2_def finite_value_def)
next
  show "billItems_A
          \<lparr>items = Some [\<lparr>raw_description = ''Tea'', raw_price = 10, isTax = None\<rparr>],
           cgst = Some 1, sgst = Some 1\<rparr>
        = [\<lparr>item_id = ''1'', description = ''Tea'', price = 12, isShared = None\<rparr>]"
    by (simp add: billItems_A_def toFixed2_def toString_1 fl_add_def fl_div_def to_double_2
          to_double_12 plus_toFixed2_def finite_value_def)
qed

theorem schemaA_tax_spread_over_items_witness:
  "length (billItems_A
      \<lparr>items = Some [\<lparr>raw_description = ''Rice'', raw_price = 20, isTax = None\<rparr>,
                     \<lparr>raw_description = ''Tea'', raw_price = 1, isTax = None\<rparr>],
       cgst = Some (5944751508129055 / 18014398509481984), sgst = None\<rparr>) = 2
   \<and> price (billItems_A
      \<lparr>items = Some [\<lparr>raw_description = ''Rice'', raw_price = 20, isTax = None\<rparr>,
                     \<lparr>raw_description = ''Tea'', raw_price = 1, isTax = None\<rparr>],
       cgst = Some (5944751508129055 / 18014398509481984), sgst = None\<rparr> ! 0)
     = 5674535530486825 / 281474976710656"
proof -
  let ?its = "[\<lparr>raw_description = ''Rice'', raw_price = 20, isTax = None\<rparr>,
                     \<lparr>raw_description = ''Tea'', raw_price = 1, isTax = None\<rparr>]"
  let ?r = "\<lparr>items = Some ?its,
       cgst = Some (5944751508129055 / 18014398509481984), sgst = None\<rparr>"
  let ?share = "Finite (5944751508129055 / 36028797018963968)"
  let ?s = "2837971452685189 / 140737488355328 :: real"
  have h3: "?share
           = fl_div (fl_add (Finite (case cgst ?r of None \<Rightarrow> 0 | Some c \<Rightarrow> c))
                            (Finite (case sgst ?r of None \<Rightarrow> 0 | Some c \<Rightarrow> c)))
               (length ?its)"
    by (simp add: fl_add_def fl_div_def to_double_33_100 to_double_33_200)
  have sum: "fl_add (Finite (raw_price (?its ! 0))) ?share = Finite ?s \<and> \<bar>?s\<bar> < 10 ^ 21"
    by (simp add: fl_add_def to_double_20_165)
  have h1: "items ?r = Some ?its" and h2: "?its \<noteq> []" and j0: "0 < length ?its"
    by simp_all
  note t = schemaA_tax_spread_over_items [OF h1 h2 h3]
  have len: "length (billItems_A ?r) = 2"
    using t by simp
  obtain n :: int where b: "\<bar>real_of_int n - 100 * ?s\<bar> \<le> 1 / 2"
    and p: "to_double (real_of_int n / 100) = Finite (price (billItems_A ?r ! 0))"
    using t [THEN conjunct2, THEN conjunct1, rule_format, THEN conjunct2, THEN conjunct1,
             rule_format, OF j0 sum]
    by blast
  have "real_of_int n < 2017 \<and> 2015 < real_of_int n"
    using b by linarith
  then have "n < 2017 \<and> 2015 < n" by linarith
  then have "n = 2016" by linarith
  then have "price (billItems_A ?r ! 0) = 5674535530486825 / 281474976710656"
    using p by (simp add: to_double_504_25)
  then show ?thesis using len by simp
qed

text \<open>
  The rounding is that of the double sum, not of the decimal one: with the prices 20 and 1
  and \<open>cgst = 0.33\<close> the first sum is the double below \<open>20.165\<close>, and the price is
  \<open>20.16\<close> where the decimal sum would give \<open>20.17\<close>.
\<close>

lemma schemaA_example_in_doubles:
  "map price (billItems_A
      \<lparr>items = Some [\<lparr>raw_description = ''Rice'', raw_price = 20, isTax = None\<rparr>,
                     \<lparr>raw_description = ''Tea'', raw_price = 1, isTax = None\<rparr>],
       cgst = Some (5944751508129055 / 18014398509481984), sgst = None\<rparr>)
     = [5674535530486825 / 281474976710656, 658651445502935 / 562949953421312]
   \<and> to_double (2016 / 100) = Finite (5674535530486825 / 281474976710656)
   \<and> to_double (117 / 100) = Finite (658651445502935 / 562949953421312)
   \<and> to_double (33 / 100) = Finite (5944751508129055 / 18014398509481984)
   \<and> toFixed2 (20 + (33 / 100) / 2) = 2017 / 100"
  by (simp add: billItems_A_def fl_add_def fl_div_def plus_toFixed2_def finite_value_def
        toFixed2_def to_double_33_100 to_double_33_200 to_double_20_165 to_double_1_165
        to_double_504_25 to_double_117_100 to_double_33_100_dec)
text \<open>
  C10. In the second version, a returned item's \<open>isShared\<close> is true exactly when the parsed
  item's \<open>isTax\<close> is the boolean \<open>true\<close>; the string "true", the number 1 and a missing
  field all give false. The output keeps the parsed items' order, number, descriptions and
  prices, with the ids 1, 2, ... in order.
\<close>

theorem billItems_B_isShared_iff_isTax_true:
  "length (billItems_B parsedItems) = length parsedItems
   \<and> (\<forall>j<length parsedItems.
         isShared (billItems_B parsedItems ! j) = Some (isTax (parsedItems ! j) = Some (JBool True))
       \<and> description (billItems_B parsedItems ! j) = raw_description (parsedItems ! j)
       \<and> price (billItems_B parsedItems ! j) = raw_price (parsedItems ! j)
       \<and> item_id (billItems_B parsedItems ! j) = toString (j + 1))
   \<and> map isShared
        (billItems_B
           [\<lparr>raw_description = ''A'', raw_price = 1, isTax = Some (JString ''true'')\<rparr>,
            \<lparr>raw_description = ''B'', raw_price = 2, isTax = Some (JNumber 1)\<rparr>,
            \<lparr>raw_description = ''C'', raw_price = 3, isTax = None\<rparr>,
            \<lparr>raw_description = ''D'', raw_price = 4, isTax = Some (JBool True)\<rparr>])
      = [Some False, Some False, Some False, Some True]"
  by (simp add: billItems_B_def nth_enumerate_eq)

theorem billItems_B_isShared_iff_isTax_true_witness:
  "billItems_B
     [\<lparr>raw_description = ''Tea'', raw_price = 10, isTax = Some (JBool False)\<rparr>,
      \<lparr>raw_description = ''Tax'', raw_price = 2, isTax = Some (JBool True)\<rparr>] ! 1
   = \<lparr>item_id = ''2'', description = ''Tax'', price = 2, isShared = Some True\<rparr>"
proof -
  let ?ps = "[\<lparr>raw_description = ''Tea'', raw_price = 10, isTax = Some (JBool False)\<rparr>,
      \<lparr>raw_description = ''Tax'', raw_price = 2, isTax = Some (JBool True)\<rparr>]"
  have "isShared (billItems_B ?ps ! 1) = Some (isTax (?ps ! 1) = Some (JBool True))
       \<and> description (billItems_B ?ps ! 1) = raw_description (?ps ! 1)
       \<and> price (billItems_B ?ps ! 1) = raw_price (?ps ! 1)
       \<and> item_id (billItems_B ?ps ! 1) = toString (1 + 1)"
    using billItems_B_isShared_iff_isTax_true [of ?ps] by simp
  then show ?thesis
    by (cases "billItems_B ?ps ! 1") (simp add: toString_2)
qed

text \<open>The two parts together: a second-version response with a tax line, two participants and no
  assignment; each owes half of 12.\<close>

lemma schemaB_example:
  "costBreakdown_js
     (billItems_B
        [\<lparr>raw_description = ''Tea'', raw_price = 10, isTax = Some (JBool False)\<rparr>,
         \<lparr>raw_description = ''Tax'', raw_price = 2, isTax = Some (JBool True)\<rparr>])
     [\<lparr>participant_id = ''a'', name = ''Asha''\<rparr>, \<lparr>participant_id = ''b'', name = ''Ben''\<rparr>]
     Map.empty
   = Inr ([(''a'', Num (Finite 6)), (''b'', Num (Finite 6))], [2])"
  by (simp add: billItems_B_def toString_1 toString_2 js_eval to_double_6 to_double_10
        to_double_12)

subsection \<open>Parsing the model's text\<close>

lemma match_first_to_last_Some:
  assumes "s = pre @ lb # mid @ rb # suf"
    and "lb \<notin> set pre" and "rb \<notin> set suf"
  shows "match_first_to_last lb rb s = Some (lb # mid @ [rb])"
proof -
  have 1: "dropWhile (\<lambda>c. c \<noteq> lb) s = lb # mid @ rb # suf"
    using assms(1,2) by (auto simp: dropWhile_append3)
  have 2: "dropWhile (\<lambda>c. c \<noteq> rb) (rev (mid @ rb # suf)) = rb # rev mid"
    using assms(3) by (auto simp: dropWhile_append3)
  show ?thesis
    unfolding match_first_to_last_def 1 using 2 by simp
qed

lemma match_first_to_last_SomeD:
  assumes "match_first_to_last lb rb s = Some m"
  shows "\<exists>pre mid suf. s = pre @ lb # mid @ rb # suf
           \<and> lb \<notin> set pre \<and> rb \<notin> set suf \<and> m = lb # mid @ [rb]"
proof -
  let ?P = "\<lambda>c. c \<noteq> lb" and ?Q = "\<lambda>c. c \<noteq> rb"
  obtain c after_opening where d1: "dropWhile ?P s = c # after_opening"
    using assms by (auto simp: match_first_to_last_def split: list.splits)
  obtain d before_closing where d2: "dropWhile ?Q (rev after_opening) = d # before_closing"
    using assms d1 by (auto simp: match_first_to_last_def split: list.splits)
  have m: "m = c # rev (d # before_closing)"
    using assms d1 d2 by (simp add: match_first_to_last_def)
  have c: "c = lb"
    using hd_dropWhile [of ?P s] d1 by auto
  have d: "d = rb"
    using hd_dropWhile [of ?Q "rev after_opening"] d2 by auto
  have t: "s = takeWhile ?P s @ lb # after_opening"
    using takeWhile_dropWhile_id [of ?P s] d1 c by simp
  have r: "rev after_opening = takeWhile ?Q (rev after_opening) @ rb # before_closing"
    using takeWhile_dropWhile_id [of ?Q "rev after_opening"] d2 d by simp
  have a: "after_opening = rev before_closing @ rb # rev (takeWhile ?Q (rev after_opening))"
    using arg_cong [OF r, of rev] by simp
  have p: "lb \<notin> set (takeWhile ?P s)"
    using set_takeWhileD by fastforce
  have q: "rb \<notin> set (rev (takeWhile ?Q (rev after_opening)))"
    using set_takeWhileD by fastforce
  have "s = takeWhile ?P s @ lb # rev before_closing
                 @ rb # rev (takeWhile ?Q (rev after_opening))"
    using t a by simp
  moreover have "m = lb # rev before_closing @ [rb]"
    using m c d by simp
  ultimately show ?thesis using p q by blast
qed

lemma match_first_to_last_exists:
  assumes "s = pre @ lb # mid @ rb # suf"
  shows "\<exists>m. match_first_to_last lb rb s = Some m"
proof -
  have "lb \<in> set (pre @ [lb])" by simp
  then obtain ys zs where y: "pre @ [lb] = ys @ lb # zs" and ny: "lb \<notin> set ys"
    by (meson split_list_first)
  have "rb \<in> set (rb # suf)" by simp
  then obtain as bs where b: "rb # suf = as @ rb # bs" and nb: "rb \<notin> set bs"
    by (meson split_list_last)
  have "s = (pre @ [lb]) @ mid @ (rb # suf)"
    using assms by simp
  then have "s = ys @ lb # (zs @ mid @ as) @ rb # bs"
    unfolding y b by simp
  from match_first_to_last_Some [OF this ny nb] show ?thesis by blast
qed

lemma match_first_to_last_None:
  "match_first_to_last lb rb s = None
     \<longleftrightarrow> \<not> (\<exists>pre mid suf. s = pre @ lb # mid @ rb # suf)"
proof
  assume "match_first_to_last lb rb s = None"
  then show "\<not> (\<exists>pre mid suf. s = pre @ lb # mid @ rb # suf)"
    using match_first_to_last_exists [where s = s and lb = lb and rb = rb]
    by fastforce
next
  assume "\<not> (\<exists>pre mid suf. s = pre @ lb # mid @ rb # suf)"
  then show "match_first_to_last lb rb s = None"
    using match_first_to_last_SomeD [of lb rb s]
    by (cases "match_first_to_last lb rb s") blast+
qed


text \<open>
  C5, as stated, fails. In "see [1] or [2]" the first well-formed bracket-delimited
  structure is "[1]", but the second version's scan selects "[1] or [2]": with a parser that
  rejects what it is given and reports it, that is the string handed to the second parse.
  In "note {} end" the first structure is the object "{}", which the second version never
  looks for.
\<close>

theorem first_structure_counterexample:
  "first_wellformed_structure ''see [1] or [2]'' = Some ''[1]''
   \<and> match_array ''see [1] or [2]'' = Some ''[1] or [2]''
   \<and> parse_response_B (\<lambda>s. Inl s) ''see [1] or [2]'' = Inl ''[1] or [2]''
   \<and> first_wellformed_structure ''note {} end'' = Some ''{}''
   \<and> parse_response_B (\<lambda>s. Inl s) ''note {} end'' = Inl ''Failed to parse model response as JSON''"
  by (simp add: closing_of_def match_array_def match_first_to_last_def parse_response_B_def)

text \<open>
  C5, as the code has it. The parser first parses the whole text. When that fails it takes
  the text from the first opening bracket to the last closing bracket of the one form its
  version expects (braces in the first version, square brackets in the second), whatever
  lies between, and parses that; when there is no such stretch it fails with "Failed to
  parse model response as JSON". It fails exactly when the whole text does not parse and
  either there is no such stretch or the stretch does not parse.
\<close>

theorem parse_falls_back_to_first_open_last_close:
  "(\<forall>v. JSON_parse_A response = Inr v \<longrightarrow> parse_response_A JSON_parse_A response = Inr v)
   \<and> (\<forall>e pre mid suf.
        JSON_parse_A response = Inl e
        \<and> response = pre @ CHR ''{'' # mid @ CHR ''}'' # suf
        \<and> CHR ''{'' \<notin> set pre \<and> CHR ''}'' \<notin> set suf
        \<longrightarrow> parse_response_A JSON_parse_A response = JSON_parse_A (CHR ''{'' # mid @ [CHR ''}'']))
   \<and> (\<forall>e. JSON_parse_A response = Inl e
        \<and> \<not> (\<exists>pre mid suf. response = pre @ CHR ''{'' # mid @ CHR ''}'' # suf)
        \<longrightarrow> parse_response_A JSON_parse_A response = Inl ''Failed to parse model response as JSON'')
   \<and> (isl (parse_response_A JSON_parse_A response)
        \<longleftrightarrow> isl (JSON_parse_A response)
            \<and> (case match_object response of None \<Rightarrow> True | Some m \<Rightarrow> isl (JSON_parse_A m)))
   \<and> (\<forall>v. JSON_parse_B response = Inr v \<longrightarrow> parse_response_B JSON_parse_B response = Inr v)
   \<and> (\<forall>e pre mid suf.
        JSON_parse_B response = Inl e
        \<and> response = pre @ CHR ''['' # mid @ CHR '']'' # suf
        \<and> CHR ''['' \<notin> set pre \<and> CHR '']'' \<notin> set suf
        \<longrightarrow> parse_response_B JSON_parse_B response = JSON_parse_B (CHR ''['' # mid @ [CHR '']'']))
   \<and> (\<forall>e. JSON_parse_B response = Inl e
        \<and> \<not> (\<exists>pre mid suf. response = pre @ CHR ''['' # mid @ CHR '']'' # suf)
        \<longrightarrow> parse_response_B JSON_parse_B response = Inl ''Failed to parse model response as JSON'')
   \<and> (isl (parse_response_B JSON_parse_B response)
        \<longleftrightarrow> isl (JSON_parse_B response)
            \<and> (case match_array response of None \<Rightarrow> True | Some m \<Rightarrow> isl (JSON_parse_B m)))"
proof -
  have a1: "parse_response_A JSON_parse_A response = Inr v" if "JSON_parse_A response = Inr v" for v
    using that by (simp add: parse_response_A_def)
  have a2: "parse_response_A JSON_parse_A response = JSON_parse_A (CHR ''{'' # mid @ [CHR ''}''])"
    if "JSON_parse_A response = Inl e" "response = pre @ CHR ''{'' # mid @ CHR ''}'' # suf"
       "CHR ''{'' \<notin> set pre" "CHR ''}'' \<notin> set suf" for e pre mid suf
    using that(1) match_first_to_last_Some [OF that(2,3,4)]
    by (simp add: parse_response_A_def match_object_def)
  have a3: "parse_response_A JSON_parse_A response = Inl ''Failed to parse model response as JSON''"
    if "JSON_parse_A response = Inl e"
       "\<not> (\<exists>pre mid suf. response = pre @ CHR ''{'' # mid @ CHR ''}'' # suf)" for e
    using that(1) match_first_to_last_None [of "CHR ''{''" "CHR ''}''" response] that(2)
    by (simp add: parse_response_A_def match_object_def)
  have a4: "isl (parse_response_A JSON_parse_A response)
        \<longleftrightarrow> isl (JSON_parse_A response)
            \<and> (case match_object response of None \<Rightarrow> True | Some m \<Rightarrow> isl (JSON_parse_A m))"
    by (auto simp: parse_response_A_def split: sum.splits option.splits)
  have b1: "parse_response_B JSON_parse_B response = Inr v" if "JSON_parse_B response = Inr v" for v
    using that by (simp add: parse_response_B_def)
  have b2: "parse_response_B JSON_parse_B response = JSON_parse_B (CHR ''['' # mid @ [CHR '']''])"
    if "JSON_parse_B response = Inl e" "response = pre @ CHR ''['' # mid @ CHR '']'' # suf"
       "CHR ''['' \<notin> set pre" "CHR '']'' \<notin> set suf" for e pre mid suf
    using that(1) match_first_to_last_Some [OF that(2,3,4)]
    by (simp add: parse_response_B_def match_array_def)
  have b3: "parse_response_B JSON_parse_B response = Inl ''Failed to parse model response as JSON''"
    if "JSON_parse_B response = Inl e"
       "\<not> (\<exists>pre mid suf. response = pre @ CHR ''['' # mid @ CHR '']'' # suf)" for e
    using that(1) match_first_to_last_None [of "CHR ''[''" "CHR '']''" response] that(2)
    by (simp add: parse_response_B_def match_array_def)
  have b4: "isl (parse_response_B JSON_parse_B response)
        \<longleftrightarrow> isl (JSON_parse_B response)
            \<and> (case match_array response of None \<Rightarrow> True | Some m \<Rightarrow> isl (JSON_parse_B m))"
    by (auto simp: parse_response_B_def split: sum.splits option.splits)
  show ?thesis
  proof (intro conjI allI impI)
    fix v assume "JSON_parse_A response = Inr v"
    then show "parse_response_A JSON_parse_A response = Inr v" by (rule a1)
  next
    fix e pre mid suf
    assume "JSON_parse_A response = Inl e
        \<and> response = pre @ CHR ''{'' # mid @ CHR ''}'' # suf
        \<and> CHR ''{'' \<notin> set pre \<and> CHR ''}'' \<notin> set suf"
    then show "parse_response_A JSON_parse_A response = JSON_parse_A (CHR ''{'' # mid @ [CHR ''}''])"
      using a2 [of e pre mid suf] by blast
  next
    fix e
    assume "JSON_parse_A response = Inl e
        \<and> \<not> (\<exists>pre mid suf. response = pre @ CHR ''{'' # mid @ CHR ''}'' # suf)"
    then show "parse_response_A JSON_parse_A response = Inl ''Failed to parse model response as JSON''"
      using a3 [of e] by blast
  next
    show "isl (parse_response_A JSON_parse_A response)
        \<longleftrightarrow> isl (JSON_parse_A response)
            \<and> (case match_object response of None \<Rightarrow> True | Some m \<Rightarrow> isl (JSON_parse_A m))"
      by (rule a4)
  next
    fix v assume "JSON_parse_B response = Inr v"
    then show "parse_response_B JSON_parse_B response = Inr v" by (rule b1)
  next
    fix e pre mid suf
    assume "JSON_parse_B response = Inl e
        \<and> response = pre @ CHR ''['' # mid @ CHR '']'' # suf
        \<and> CHR ''['' \<notin> set pre \<and> CHR '']'' \<notin> set suf"
    then show "parse_response_B JSON_parse_B response = JSON_parse_B (CHR ''['' # mid @ [CHR '']''])"
      using b2 [of e pre mid suf] by blast
  next
    fix e
    assume "JSON_parse_B response = Inl e
        \<and> \<not> (\<exists>pre mid suf. response = pre @ CHR ''['' # mid @ CHR '']'' # suf)"
    then show "parse_response_B JSON_parse_B response = Inl ''Failed to parse model response as JSON''"
      using b3 [of e] by blast
  next
    show "isl (parse_response_B JSON_parse_B response)
        \<longleftrightarrow> isl (JSON_parse_B response)
            \<and> (case match_array response of None \<Rightarrow> True | Some m \<Rightarrow> isl (JSON_parse_B m))"
      by (rule b4)
  qed
qed

theorem parse_falls_back_to_first_open_last_close_witness:
  "parse_response_B (\<lambda>s. if s = ''[]'' then Inr [] else Inl ''SyntaxError'') ''Items: [] ''
     = Inr []
   \<and> parse_response_A (\<lambda>s. Inl ''SyntaxError'') ''no items''
     = Inl ''Failed to parse model response as JSON''"
proof -
  let ?B = "\<lambda>s. if s = ''[]'' then Inr ([] :: parsed_item list) else Inl ''SyntaxError''"
  let ?A = "\<lambda>s :: string. (Inl ''SyntaxError'' :: string + parsed_response)"
  note u = parse_falls_back_to_first_open_last_close [of ?A "''Items: [] ''" ?B]
  note v = parse_falls_back_to_first_open_last_close [of ?A "''no items''" ?B]
  note u6 = u [THEN conjunct2, THEN conjunct2, THEN conjunct2, THEN conjunct2,
               THEN conjunct2, THEN conjunct1, rule_format,
               of "''SyntaxError''" "''Items: ''" "[]" "'' ''"]
  note v3 = v [THEN conjunct2, THEN conjunct2, THEN conjunct1, rule_format, of "''SyntaxError''"]
  have 1: "parse_response_B ?B ''Items: [] '' = ?B (CHR ''['' # [] @ [CHR '']''])"
    by (rule u6) simp
  have n: "\<not> (\<exists>pre mid suf. ''no items'' = pre @ CHR ''{'' # mid @ CHR ''}'' # suf)"
  proof
    assume "\<exists>pre mid suf. ''no items'' = pre @ CHR ''{'' # mid @ CHR ''}'' # suf"
    then obtain pre mid suf where "''no items'' = pre @ CHR ''{'' # mid @ CHR ''}'' # suf" by blast
    then have "CHR ''{'' \<in> set ''no items''" by (metis in_set_conv_decomp)
    then show False by simp
  qed
  have 2: "parse_response_A ?A ''no items'' = Inl ''Failed to parse model response as JSON''"
    by (rule v3) (simp add: n)
  show ?thesis using 1 2 by simp
qed

subsection \<open>The key check and the order of effects\<close>

lemma configured_key_reads_image:
  assumes "\<not> api_key_not_configured key"
  shows "\<exists>rest. fst (processBillImage_A key pf JSON_parse_A imageUri) = ReadImage imageUri # rest"
    and "\<exists>rest. fst (processBillImage_B key pf JSON_parse_B imageUri) = ReadImage imageUri # rest"
  using assms
  by (auto simp: processBillImage_A_def processBillImage_B_def Let_def split: sum.splits)

lemma processBillImage_B_run:
  "processBillImage_B (Some ''k'')
      \<lparr>readAsStringAsync = (\<lambda>uri. Some ''aGVsbG8=''), generateContent = (\<lambda>d m. Inr ''Here: [] ok'')\<rparr>
      (\<lambda>s. if s = ''[]'' then Inr [\<lparr>raw_description = ''Tea'', raw_price = 10, isTax = Some (JBool True)\<rparr>] else Inl ''SyntaxError'') ''file:///bill.PNG''
     = ([ReadImage ''file:///bill.PNG'', CallModel ''aGVsbG8='' ''image/png''],
        Inr [\<lparr>item_id = ''1'', description = ''Tea'', price = 10, isShared = Some True\<rparr>])"
proof -
  have m: "getMimeTypeFromUri ''file:///bill.PNG'' = ''image/png''" by code_simp
  have t: "toString (Suc 0) = ''1''" by code_simp
  show ?thesis
  by (simp add: processBillImage_B_def api_key_not_configured_def getBase64FromUri_def m
      parse_response_B_def match_array_def match_first_to_last_def billItems_B_def t)
qed

text \<open>
  C8. Whenever the configured key is absent or is the placeholder, both versions fail with
  the configuration message and have had no effect: the image was not read and the model
  was not called. Nothing with items is returned.
\<close>

theorem unconfigured_key_fails_before_any_effect:
  assumes "key = None \<or> key = Some ''YOUR_GEMINI_API_KEY''"
  shows "processBillImage_A key pf JSON_parse_A imageUri
           = ([], Inl ''Failed to process bill image: Gemini API key not configured. Please add your API key in the config file.'')
       \<and> processBillImage_B key pf JSON_parse_B imageUri
           = ([], Inl ''Failed to process bill image: Gemini API key not configured. Please add your API key in the config file.'')"
proof -
  have "api_key_not_configured key"
    using assms by (auto simp: api_key_not_configured_def)
  then show ?thesis
    by (simp add: processBillImage_A_def processBillImage_B_def failed_to_process_def)
qed

theorem unconfigured_key_fails_before_any_effect_witness:
  "processBillImage_A (Some ''YOUR_GEMINI_API_KEY'')
      \<lparr>readAsStringAsync = (\<lambda>uri. Some ''aGVsbG8=''), generateContent = (\<lambda>d m. Inr ''{}'')\<rparr>
      (\<lambda>s. Inr \<lparr>items = None, cgst = None, sgst = None\<rparr>) ''file:///bill.jpg''
     = ([], Inl ''Failed to process bill image: Gemini API key not configured. Please add your API key in the config file.'')
   \<and> processBillImage_B None
      \<lparr>readAsStringAsync = (\<lambda>uri. Some ''aGVsbG8=''), generateContent = (\<lambda>d m. Inr ''[]'')\<rparr>
      (\<lambda>s. Inr []) ''file:///bill.jpg''
     = ([], Inl ''Failed to process bill image: Gemini API key not configured. Please add your API key in the config file.'')"
proof -
  have a: "Some ''YOUR_GEMINI_API_KEY'' = None \<or> Some ''YOUR_GEMINI_API_KEY'' = Some ''YOUR_GEMINI_API_KEY''"
    by simp
  have b: "(None :: string option) = None \<or> None = Some ''YOUR_GEMINI_API_KEY''"
    by simp
  show ?thesis
    using unconfigured_key_fails_before_any_effect [OF a, THEN conjunct1]
          unconfigured_key_fails_before_any_effect [OF b, THEN conjunct2]
    by blast
qed

end
